theory Spec2Isabelle
  imports Main "HOL-Library.Word"
begin

unbundle bit_operations_syntax

section \<open>Shared types\<close>

text \<open>
  Bytes and 32-bit words of the C sources. \<open>level_t\<close> is declared in a header that is
  not part of the sources; the wire structs of \<^verbatim>\<open>baking_auth.c\<close> store a level in a
  \<^verbatim>\<open>uint32_t\<close> slot and \<^verbatim>\<open>is_valid_level\<close> masks it with \<^verbatim>\<open>0xC0000000\<close>, so it is
  taken as an unsigned 32-bit word.
\<close>

type_synonym byte = "8 word"
type_synonym uint32_t = "32 word"
type_synonym level_t = "32 word"

text \<open>The curves of the SDK's \<^verbatim>\<open>cx_curve_t\<close> that the sources name.\<close>

datatype cx_curve_t = CX_CURVE_NONE | CX_CURVE_Ed25519 | CX_CURVE_SECP256K1 | CX_CURVE_SECP256R1

text \<open>
  The exceptions thrown with \<^verbatim>\<open>THROW\<close>. The named ones are macros of a header that is not
  part of the sources; they are kept apart as constructors. \<^verbatim>\<open>main.c\<close> throws raw status
  words, kept as \<open>EXC_SW\<close>.
\<close>

datatype exception =
    EXC_WRONG_PARAM
  | EXC_WRONG_LENGTH
  | EXC_WRONG_LENGTH_FOR_INS
  | EXC_PARSE_ERROR
  | EXC_WRONG_VALUES
  | EXC_SECURITY
  | EXC_MEMORY_ERROR
  | EXC_SW "16 word"

text \<open>
  The leading discriminator of a payload, as \<^verbatim>\<open>get_magic_byte\<close> classifies it. The
  function and the byte values of the \<^verbatim>\<open>MAGIC_BYTE_*\<close> macros live in
  \<^verbatim>\<open>protocol.h\<close>, which is not part of the sources: the classification is a datatype and
  \<^verbatim>\<open>get_magic_byte\<close> a parameter of every function that calls it.
\<close>

datatype magic_byte =
    MAGIC_BYTE_INVALID
  | MAGIC_BYTE_BLOCK
  | MAGIC_BYTE_BAKING_OP
  | MAGIC_BYTE_UNSAFE_OP
  | MAGIC_BYTE_UNSAFE_OP2
  | MAGIC_BYTE_UNSAFE_OP3

type_synonym get_magic_byte_t = "byte list \<Rightarrow> nat \<Rightarrow> magic_byte"

section \<open>\<^verbatim>\<open>baking_auth.c\<close>: the persistent record and the baking guard\<close>

text \<open>
  \<^verbatim>\<open>nvram_data\<close>, with the fields \<^verbatim>\<open>baking_auth.c\<close> reads and writes. \<open>bip32_path\<close> is
  the array of \<^verbatim>\<open>MAX_BIP32_PATH\<close> words; \<open>path_length\<close> is a \<^verbatim>\<open>uint8_t\<close>.
\<close>

record nvram_data =
  highest_level :: level_t
  had_endorsement :: bool
  curve :: cx_curve_t
  path_length :: byte
  bip32_path :: "uint32_t list"

text \<open>
  The effects of \<^verbatim>\<open>baking_auth.c\<close> and of the signing flows that are visible outside
  the function: a whole-record \<^verbatim>\<open>nvm_write\<close> to \<^verbatim>\<open>N_data\<close>, a refresh of the idle
  display, and a call of a signing primitive (curve or derivation type \<open>'k\<close>, path,
  message signed).
\<close>

datatype 'k event =
    NvmWrite nvram_data
  | ChangeIdleDisplay level_t
  | SignCall 'k "uint32_t list" "byte list"

text \<open>The persistent record \<^verbatim>\<open>N_data\<close> and the log of effects, oldest first.\<close>

record 'k world =
  N_data :: nvram_data
  events :: "'k event list"

definition nvm_write :: "nvram_data \<Rightarrow> 'k world \<Rightarrow> 'k world" where
  "nvm_write new w = w\<lparr>N_data := new, events := events w @ [NvmWrite new]\<rparr>"

definition change_idle_display :: "level_t \<Rightarrow> 'k world \<Rightarrow> 'k world" where
  "change_idle_display lvl w = w\<lparr>events := events w @ [ChangeIdleDisplay lvl]\<rparr>"

definition is_valid_level :: "level_t \<Rightarrow> bool" where
  "is_valid_level lvl = (lvl AND 0xC0000000 = 0)"

definition write_highest_level :: "level_t \<Rightarrow> bool \<Rightarrow> 'k world \<Rightarrow> 'k world" where
  "write_highest_level lvl is_endorsement w =
     (if \<not> is_valid_level lvl then w
      else
        let new_data = (N_data w)\<lparr>highest_level := lvl, had_endorsement := is_endorsement\<rparr>;
            w1 = nvm_write new_data w
        in change_idle_display (highest_level (N_data w1)) w1)"

text \<open>
  \<^verbatim>\<open>memcpy(dst, src, n * sizeof(uint32_t))\<close> on word arrays: the first \<open>n\<close> words of
  \<open>dst\<close> are replaced by those of \<open>src\<close>, the rest of \<open>dst\<close> stays.
\<close>

definition memcpy_words :: "uint32_t list \<Rightarrow> uint32_t list \<Rightarrow> nat \<Rightarrow> uint32_t list" where
  "memcpy_words dst src n = take n src @ drop n dst"

text \<open>
  \<^verbatim>\<open>authorize_baking\<close>. The local \<^verbatim>\<open>new_baking_details\<close> is declared without an
  initialiser, so its contents before the four assignments are whatever the stack held:
  the argument \<open>uninit\<close>. A \<^verbatim>\<open>NULL\<close> path is \<open>None\<close>. \<^verbatim>\<open>MAX_BIP32_PATH\<close> comes from
  a header that is not part of the sources and is a parameter.
\<close>

definition authorize_baking ::
  "nat \<Rightarrow> nvram_data \<Rightarrow> cx_curve_t \<Rightarrow> uint32_t list option \<Rightarrow> byte \<Rightarrow>
     'k world \<Rightarrow> 'k world" where
  "authorize_baking MAX_BIP32_PATH uninit curve' bip32_path' path_length' w =
     (case bip32_path' of
        None \<Rightarrow> w
      | Some p \<Rightarrow>
          if unat path_length' > MAX_BIP32_PATH \<or> path_length' = 0 then w
          else
            let new_baking_details = uninit
                  \<lparr>highest_level := highest_level (N_data w),
                   curve := curve',
                   path_length := path_length',
                   bip32_path := memcpy_words (bip32_path uninit) p (unat path_length')\<rparr>;
                w1 = nvm_write new_baking_details w
            in change_idle_display (highest_level (N_data w1)) w1)"

definition is_level_authorized :: "nvram_data \<Rightarrow> level_t \<Rightarrow> bool \<Rightarrow> bool" where
  "is_level_authorized nv level is_endorsement =
     (if \<not> is_valid_level level then False
      else if level > highest_level nv then True
      else is_endorsement \<and> \<not> had_endorsement nv)"

definition is_path_authorized ::
  "nvram_data \<Rightarrow> cx_curve_t \<Rightarrow> uint32_t list option \<Rightarrow> byte \<Rightarrow> bool" where
  "is_path_authorized nv curve' bip32_path' path_length' =
     (case bip32_path' of
        None \<Rightarrow> False
      | Some p \<Rightarrow>
          path_length' \<noteq> 0 \<and>
          path_length' = path_length nv \<and>
          curve' = curve nv \<and>
          take (unat path_length') p = take (unat path_length') (bip32_path nv))"

text \<open>
  \<^verbatim>\<open>parse_baking_data\<close>. The packed wire structs give the sizes and offsets:
  \<^verbatim>\<open>struct endorsement\<close> is 1 + 4 + 32 + 1 + 4 = 42 bytes with the level at offset 38,
  \<^verbatim>\<open>struct block\<close> is 1 + 4 + 4 + 1 = 10 bytes with the level at offset 5.
  \<^verbatim>\<open>READ_UNALIGNED_BIG_ENDIAN\<close> reads four bytes, most significant first.
\<close>

record parsed_baking_data =
  is_endorsement :: bool
  level :: level_t

definition READ_UNALIGNED_BIG_ENDIAN :: "byte list \<Rightarrow> nat \<Rightarrow> uint32_t" where
  "READ_UNALIGNED_BIG_ENDIAN data off = word_rcat (take 4 (drop off data))"

definition sizeof_endorsement :: nat where
  "sizeof_endorsement = 42"

definition sizeof_block :: nat where
  "sizeof_block = 10"

definition parse_baking_data ::
  "get_magic_byte_t \<Rightarrow> byte list \<Rightarrow> nat \<Rightarrow> parsed_baking_data option" where
  "parse_baking_data get_magic_byte data length' =
     (case get_magic_byte data length' of
        MAGIC_BYTE_BAKING_OP \<Rightarrow>
          if length' \<noteq> sizeof_endorsement then None
          else Some \<lparr>is_endorsement = True, level = READ_UNALIGNED_BIG_ENDIAN data 38\<rparr>
      | MAGIC_BYTE_BLOCK \<Rightarrow>
          if length' < sizeof_block then None
          else Some \<lparr>is_endorsement = False, level = READ_UNALIGNED_BIG_ENDIAN data 5\<rparr>
      | _ \<Rightarrow> None)"

text \<open>\<^verbatim>\<open>guard_baking_authorized\<close>: \<open>Some e\<close> is \<^verbatim>\<open>THROW(e)\<close>, \<open>None\<close> a normal return.\<close>

definition guard_baking_authorized ::
  "get_magic_byte_t \<Rightarrow> nvram_data \<Rightarrow> cx_curve_t \<Rightarrow> byte list \<Rightarrow> nat \<Rightarrow>
     uint32_t list option \<Rightarrow> byte \<Rightarrow> exception option" where
  "guard_baking_authorized get_magic_byte nv curve' data datalen bip32_path' path_length' =
     (if \<not> is_path_authorized nv curve' bip32_path' path_length' then Some EXC_SECURITY
      else
        case parse_baking_data get_magic_byte data datalen of
          None \<Rightarrow> Some EXC_SECURITY
        | Some baking_info \<Rightarrow>
            if \<not> is_level_authorized nv (level baking_info) (is_endorsement baking_info)
            then Some EXC_SECURITY
            else None)"

definition update_high_water_mark ::
  "get_magic_byte_t \<Rightarrow> byte list \<Rightarrow> nat \<Rightarrow> 'k world \<Rightarrow> 'k world" where
  "update_high_water_mark get_magic_byte data datalen w =
     (case parse_baking_data get_magic_byte data datalen of
        None \<Rightarrow> w
      | Some baking_info \<Rightarrow>
          write_highest_level (level baking_info) (is_endorsement baking_info) w)"

section \<open>\<^verbatim>\<open>apdu_sign.c\<close>: the operation-tag allow-list\<close>

text \<open>
  The tags of \<^verbatim>\<open>enum operation_tag\<close> that \<^verbatim>\<open>apdu_sign.c\<close> names (the enum itself is
  declared in a header that is not part of the sources), and \<open>OPERATION_TAG_OTHER\<close> for
  any other value of the enum. \<open>BAKING_APP\<close> is the build-time switch
  \<^verbatim>\<open>#ifdef BAKING_APP\<close>, a boolean parameter here.
\<close>

datatype operation_tag =
    OPERATION_TAG_NONE
  | OPERATION_TAG_PROPOSAL
  | OPERATION_TAG_BALLOT
  | OPERATION_TAG_ATHENS_REVEAL
  | OPERATION_TAG_ATHENS_TRANSACTION
  | OPERATION_TAG_ATHENS_ORIGINATION
  | OPERATION_TAG_ATHENS_DELEGATION
  | OPERATION_TAG_BABYLON_REVEAL
  | OPERATION_TAG_BABYLON_TRANSACTION
  | OPERATION_TAG_BABYLON_ORIGINATION
  | OPERATION_TAG_BABYLON_DELEGATION
  | OPERATION_TAG_OTHER int

definition is_operation_allowed :: "bool \<Rightarrow> operation_tag \<Rightarrow> bool" where
  "is_operation_allowed BAKING_APP tag =
     (case tag of
        OPERATION_TAG_ATHENS_DELEGATION \<Rightarrow> True
      | OPERATION_TAG_ATHENS_REVEAL \<Rightarrow> True
      | OPERATION_TAG_BABYLON_DELEGATION \<Rightarrow> True
      | OPERATION_TAG_BABYLON_REVEAL \<Rightarrow> True
      | OPERATION_TAG_PROPOSAL \<Rightarrow> \<not> BAKING_APP
      | OPERATION_TAG_BALLOT \<Rightarrow> \<not> BAKING_APP
      | OPERATION_TAG_ATHENS_ORIGINATION \<Rightarrow> \<not> BAKING_APP
      | OPERATION_TAG_ATHENS_TRANSACTION \<Rightarrow> \<not> BAKING_APP
      | OPERATION_TAG_BABYLON_ORIGINATION \<Rightarrow> \<not> BAKING_APP
      | OPERATION_TAG_BABYLON_TRANSACTION \<Rightarrow> \<not> BAKING_APP
      | _ \<Rightarrow> False)"

section \<open>\<^verbatim>\<open>apdu_sign.c\<close>: the signing session\<close>

subsection \<open>Session state\<close>

text \<open>
  The session state \<^verbatim>\<open>G\<close> (\<^verbatim>\<open>global.apdu.u.sign\<close>), with the fields \<^verbatim>\<open>apdu_sign.c\<close>
  uses. Its declaration is in \<^verbatim>\<open>globals.h\<close>, which is not part of the sources, so three
  types stay parameters: \<open>'k\<close> for \<^verbatim>\<open>derivation_type_t\<close>, \<open>'h\<close> for the state of the hash
  primitive and \<open>'c\<close> for a parsed contract. \<^verbatim>\<open>memset(&G, 0, sizeof(G))\<close> makes each of
  them the zero of its type. \<^verbatim>\<open>G.message_data_as_buffer\<close> only feeds the prompt screens
  and is left out.
\<close>

record bip32_path_t =
  length_bp :: byte
  components :: "uint32_t list"

record 'k bip32_path_with_curve_t =
  bip32_path_k :: bip32_path_t
  derivation_type :: 'k

record 'h blake2b_hash_state_t =
  state :: 'h
  initialized :: bool

record 'c parsed_operation =
  source :: 'c
  destination :: 'c

record 'c parsed_operation_group =
  operation :: "'c parsed_operation"
  signing :: 'c

record 'c maybe_ops_t =
  is_valid :: bool
  v :: "'c parsed_operation_group"

record ('k, 'h, 'c) apdu_sign_state =
  key :: "'k bip32_path_with_curve_t"
  packet_index :: byte
  message_data :: "byte list"
  message_data_length :: nat
  hash_state :: "'h blake2b_hash_state_t"
  final_hash :: "byte list"
  magic_byte :: magic_byte
  maybe_ops :: "'c maybe_ops_t"
  parsed_baking_data :: parsed_baking_data
  hash_only :: bool

text \<open>
  The whole machine: the persistent record and the effect log of \<^verbatim>\<open>baking_auth.c\<close>,
  and the session state.
\<close>

record ('k, 'h, 'c) sign_world = "'k world" +
  G :: "('k, 'h, 'c) apdu_sign_state"

text \<open>
  How a handler ends: it returns \<^verbatim>\<open>finalize_successful_send(tx)\<close> with the \<open>tx\<close> response
  bytes it wrote to \<^verbatim>\<open>G_io_apdu_buffer\<close>, it throws, or it calls \<^verbatim>\<open>ui_prompt\<close>, which does
  not return: the session is suspended with the two continuations it registered.
\<close>

datatype ui_callback_t =
    CB_sign_without_hash_ok
  | CB_sign_with_hash_ok
  | CB_sign_unsafe_ok
  | CB_sign_reject

datatype prompt_t =
    PROMPT_register_delegate
  | PROMPT_transaction
  | PROMPT_prehashed
  | PROMPT_parse_fail

datatype outcome =
    Return "byte list"
  | Throw exception
  | UiPrompt prompt_t ui_callback_t ui_callback_t

datatype instruction = INS_SIGN | INS_SIGN_WITH_HASH | INS_SIGN_UNSAFE

text \<open>What \<^verbatim>\<open>prompt_transaction\<close> does: it shows a prompt, returns \<^verbatim>\<open>false\<close>, or throws.\<close>

datatype prompt_result = PromptShown | PromptDeclined | PromptThrows exception

text \<open>
  One command packet as \<^verbatim>\<open>handle_apdu\<close> reads it from \<^verbatim>\<open>G_io_apdu_buffer\<close>: the
  control byte at \<^verbatim>\<open>OFFSET_P1\<close>, the byte at \<^verbatim>\<open>OFFSET_CURVE\<close>, and the payload
  \<open>buff\<close>, whose length is \<^verbatim>\<open>buff_size\<close> (the \<^verbatim>\<open>uint8_t\<close> at \<^verbatim>\<open>OFFSET_LC\<close>, so at most
  255).
\<close>

record apdu =
  p1 :: byte
  curve_code :: byte
  buff :: "byte list"

subsection \<open>What \<^verbatim>\<open>apdu_sign.c\<close> calls but does not define\<close>

text \<open>
  The hash primitive of \<^verbatim>\<open>blake2.h\<close>: \<^verbatim>\<open>b2b_init(state, outlen)\<close>,
  \<^verbatim>\<open>b2b_update(state, in, inlen)\<close> and \<^verbatim>\<open>b2b_final(state, out, outlen)\<close>, the last
  giving the state it leaves and the digest.
\<close>

record 'h blake2b_prim =
  b2b_init :: "nat \<Rightarrow> 'h"
  b2b_update :: "'h \<Rightarrow> byte list \<Rightarrow> 'h"
  b2b_final :: "'h \<Rightarrow> nat \<Rightarrow> 'h \<times> byte list"

text \<open>
  The build switch, the constants and the functions of other files. A function that can
  throw gives a sum, \<open>Inl\<close> the exception. \<open>parse_operations\<close> gives its \<^verbatim>\<open>bool\<close> and
  what it left in \<^verbatim>\<open>*out\<close>; \<open>sign\<close> stands for \<^verbatim>\<open>WITH_KEY_PAIR\<close> around \<^verbatim>\<open>sign\<close> and
  gives the signature bytes; \<open>guard_baking_authorized_key\<close> and
  \<open>write_high_water_mark\<close> are the two-argument guard and the mark update that this
  version of \<^verbatim>\<open>apdu_sign.c\<close> calls; \<open>baking_key\<close> reads \<^verbatim>\<open>N_data.baking_key\<close>.
\<close>

record ('k, 'h, 'c) externals =
  BAKING_APP :: bool
  MAX_APDU_SIZE :: nat
  MAX_BIP32_PATH :: nat
  sizeof_message_data :: nat
  blake2 :: "'h blake2b_prim"
  get_magic_byte :: get_magic_byte_t
  read_bip32_path :: "byte list \<Rightarrow> exception + bip32_path_t"
  parse_derivation_type :: "byte \<Rightarrow> exception + 'k"
  parse_operations ::
    "byte list \<Rightarrow> 'k \<Rightarrow> bip32_path_t \<Rightarrow> (operation_tag \<Rightarrow> bool) \<Rightarrow> bool \<times> 'c parsed_operation_group"
  prompt_transaction :: "'c parsed_operation_group \<Rightarrow> 'k bip32_path_with_curve_t \<Rightarrow> prompt_result"
  guard_baking_authorized_key ::
    "parsed_baking_data \<Rightarrow> 'k bip32_path_with_curve_t \<Rightarrow> nvram_data \<Rightarrow> exception option"
  write_high_water_mark :: "parsed_baking_data \<Rightarrow> 'k world \<Rightarrow> exception + 'k world"
  baking_key :: "nvram_data \<Rightarrow> 'k bip32_path_with_curve_t"
  sign :: "'k bip32_path_with_curve_t \<Rightarrow> byte list \<Rightarrow> exception + byte list"

definition B2B_BLOCKBYTES :: nat where
  "B2B_BLOCKBYTES = 128"

text \<open>
  Modelled from the spec: \<^verbatim>\<open>SIGN_HASH_SIZE\<close>, the size of \<^verbatim>\<open>G.final_hash\<close>, is a macro
  of a header that is not part of the sources; the spec gives a 32-byte final hash.
\<close>

definition SIGN_HASH_SIZE :: nat where
  "SIGN_HASH_SIZE = 32"

text \<open>
  Modelled from the spec: \<^verbatim>\<open>bip32_path_with_curve_eq\<close> is a helper of \<^verbatim>\<open>keys.h\<close>,
  which is not part of the sources. The spec asks that curve and path match exactly: the
  same derivation type, the same path length and the same indices up to that length.
\<close>

definition bip32_path_with_curve_eq ::
  "'k bip32_path_with_curve_t \<Rightarrow> 'k bip32_path_with_curve_t \<Rightarrow> bool" where
  "bip32_path_with_curve_eq a b =
     (length_bp (bip32_path_k a) = length_bp (bip32_path_k b) \<and>
      take (unat (length_bp (bip32_path_k a))) (components (bip32_path_k a)) =
        take (unat (length_bp (bip32_path_k a))) (components (bip32_path_k b)) \<and>
      derivation_type a = derivation_type b)"

subsection \<open>The incremental hasher\<close>

definition conditional_init_hash_state ::
  "'h blake2b_prim \<Rightarrow> 'h blake2b_hash_state_t \<Rightarrow> 'h blake2b_hash_state_t" where
  "conditional_init_hash_state P st =
     (if \<not> initialized st
      then st\<lparr>state := b2b_init P SIGN_HASH_SIZE, initialized := True\<rparr>
      else st)"

text \<open>
  \<^verbatim>\<open>memmove(dst + off, src, n)\<close> on byte arrays: \<open>n\<close> bytes of \<open>src\<close> replace those of
  \<open>dst\<close> from offset \<open>off\<close>.
\<close>

definition memmove_bytes :: "byte list \<Rightarrow> nat \<Rightarrow> byte list \<Rightarrow> nat \<Rightarrow> byte list" where
  "memmove_bytes dst off src n = take off dst @ take n src @ drop (off + n) dst"

text \<open>
  The loop of \<^verbatim>\<open>blake2b_incremental_hash\<close>. \<open>current\<close> is the offset \<^verbatim>\<open>current - out\<close>.
  The result is the exception thrown, if any, and \<open>current\<close>, \<^verbatim>\<open>*out_length\<close> and the hash
  state as the loop leaves them.
\<close>

function blake2b_incremental_loop ::
  "'h blake2b_prim \<Rightarrow> byte list \<Rightarrow> nat \<Rightarrow> nat \<Rightarrow> nat \<Rightarrow> 'h blake2b_hash_state_t \<Rightarrow>
     exception option \<times> nat \<times> nat \<times> 'h blake2b_hash_state_t" where
  "blake2b_incremental_loop P out out_size current out_length st =
     (if out_length > B2B_BLOCKBYTES then
        if current > out_size then (Some EXC_MEMORY_ERROR, current, out_length, st)
        else
          let st1 = conditional_init_hash_state P st;
              st2 = st1\<lparr>state := b2b_update P (state st1) (take B2B_BLOCKBYTES (drop current out))\<rparr>
          in blake2b_incremental_loop P out out_size (current + B2B_BLOCKBYTES)
               (out_length - B2B_BLOCKBYTES) st2
      else (None, current, out_length, st))"
  by pat_completeness auto
termination
  by (relation "measure (\<lambda>(P, out, out_size, current, out_length, st). out_length)")
    (auto simp add: B2B_BLOCKBYTES_def)

declare blake2b_incremental_loop.simps [simp del]

text \<open>
  \<^verbatim>\<open>blake2b_incremental_hash\<close>: the exception thrown, if any, and the buffer, its
  length and the hash state afterwards.
\<close>

definition blake2b_incremental_hash ::
  "'h blake2b_prim \<Rightarrow> byte list \<Rightarrow> nat \<Rightarrow> nat \<Rightarrow> 'h blake2b_hash_state_t \<Rightarrow>
     exception option \<times> byte list \<times> nat \<times> 'h blake2b_hash_state_t" where
  "blake2b_incremental_hash P out out_size out_length st =
     (case blake2b_incremental_loop P out out_size 0 out_length st of
        (Some e, current, len, st') \<Rightarrow> (Some e, out, len, st')
      | (None, current, len, st') \<Rightarrow> (None, memmove_bytes out 0 (drop current out) len, len, st'))"

text \<open>
  \<^verbatim>\<open>blake2b_finish_hash\<close>: the exception thrown, if any, and the digest buffer \<open>out\<close>,
  the message buffer, its length and the hash state afterwards.
\<close>

definition blake2b_finish_hash ::
  "'h blake2b_prim \<Rightarrow> byte list \<Rightarrow> nat \<Rightarrow> byte list \<Rightarrow> nat \<Rightarrow> nat \<Rightarrow> 'h blake2b_hash_state_t \<Rightarrow>
     exception option \<times> byte list \<times> byte list \<times> nat \<times> 'h blake2b_hash_state_t" where
  "blake2b_finish_hash P out out_size buff' buff_size buff_length st =
     (let st0 = conditional_init_hash_state P st in
      case blake2b_incremental_hash P buff' buff_size buff_length st0 of
        (Some e, buff1, len, st1) \<Rightarrow> (Some e, out, buff1, len, st1)
      | (None, buff1, len, st1) \<Rightarrow>
          let h = b2b_update P (state st1) (take len buff1);
              (h', digest) = b2b_final P h out_size
          in (None, digest, buff1, len, st1\<lparr>state := h'\<rparr>))"

subsection \<open>Session reset and signature\<close>

text \<open>
  \<^verbatim>\<open>clear_data\<close>: every field of \<^verbatim>\<open>G\<close> is zero. The zero discriminator is taken as
  \<open>MAGIC_BYTE_INVALID\<close>.
\<close>

definition clear_data :: "('k, 'h, 'c) externals \<Rightarrow> ('k::zero, 'h::zero, 'c::zero) apdu_sign_state" where
  "clear_data ext =
     \<lparr>key = \<lparr>bip32_path_k = \<lparr>length_bp = 0, components = replicate (MAX_BIP32_PATH ext) 0\<rparr>,
             derivation_type = 0\<rparr>,
      packet_index = 0,
      message_data = replicate (sizeof_message_data ext) 0,
      message_data_length = 0,
      hash_state = \<lparr>state = 0, initialized = False\<rparr>,
      final_hash = replicate SIGN_HASH_SIZE 0,
      magic_byte = MAGIC_BYTE_INVALID,
      maybe_ops = \<lparr>is_valid = False,
                   v = \<lparr>operation = \<lparr>source = 0, destination = 0\<rparr>, signing = 0\<rparr>\<rparr>,
      parsed_baking_data = \<lparr>is_endorsement = False, level = 0\<rparr>,
      hash_only = False\<rparr>"

text \<open>
  The signing step of \<^verbatim>\<open>perform_signature\<close> (from \<^verbatim>\<open>size_t tx = 0\<close> on): the response is
  the final hash, when asked for, followed by the signature; then the session is cleared.
\<close>

definition perform_signature_sign ::
  "('k::zero, 'h::zero, 'c::zero) externals \<Rightarrow> bool \<Rightarrow> bool \<Rightarrow> ('k, 'h, 'c) sign_world \<Rightarrow>
     ('k, 'h, 'c) sign_world \<times> outcome" where
  "perform_signature_sign ext on_hash send_hash w =
     (let g = G w;
          response = (if send_hash \<and> on_hash then final_hash g else []);
          data = (if on_hash then final_hash g else take (message_data_length g) (message_data g))
      in case sign ext (key g) data of
           Inl e \<Rightarrow> (w, Throw e)
         | Inr signature \<Rightarrow>
             (w\<lparr>events := events w @
                   [SignCall (derivation_type (key g))
                      (take (unat (length_bp (bip32_path_k (key g)))) (components (bip32_path_k (key g))))
                      data],
                G := clear_data ext\<rparr>,
              Return (response @ signature)))"

text \<open>
  \<^verbatim>\<open>perform_signature\<close>. In the baking build it first calls
  \<^verbatim>\<open>write_high_water_mark(&G.parsed_baking_data)\<close>; in the wallet build it first serves
  the hash-only shortcut.
\<close>

definition perform_signature ::
  "('k::zero, 'h::zero, 'c::zero) externals \<Rightarrow> bool \<Rightarrow> bool \<Rightarrow> ('k, 'h, 'c) sign_world \<Rightarrow>
     ('k, 'h, 'c) sign_world \<times> outcome" where
  "perform_signature ext on_hash send_hash w =
     (if BAKING_APP ext then
        case write_high_water_mark ext (parsed_baking_data (G w)) (world.truncate w) of
          Inl e \<Rightarrow> (w, Throw e)
        | Inr w' \<Rightarrow>
            perform_signature_sign ext on_hash send_hash
              (w\<lparr>N_data := N_data w', events := events w'\<rparr>)
      else if on_hash \<and> hash_only (G w) then
        (w\<lparr>G := clear_data ext\<rparr>, Return (final_hash (G w)))
      else perform_signature_sign ext on_hash send_hash w)"

text \<open>The confirmation callbacks, and what resuming the session through one of them does.\<close>

definition sign_without_hash_ok ::
  "('k::zero, 'h::zero, 'c::zero) externals \<Rightarrow> ('k, 'h, 'c) sign_world \<Rightarrow>
     ('k, 'h, 'c) sign_world \<times> outcome" where
  "sign_without_hash_ok ext w = perform_signature ext True False w"

definition sign_with_hash_ok ::
  "('k::zero, 'h::zero, 'c::zero) externals \<Rightarrow> ('k, 'h, 'c) sign_world \<Rightarrow>
     ('k, 'h, 'c) sign_world \<times> outcome" where
  "sign_with_hash_ok ext w = perform_signature ext True True w"

definition sign_unsafe_ok ::
  "('k::zero, 'h::zero, 'c::zero) externals \<Rightarrow> ('k, 'h, 'c) sign_world \<Rightarrow>
     ('k, 'h, 'c) sign_world \<times> outcome" where
  "sign_unsafe_ok ext w = perform_signature ext False False w"

text \<open>\<^verbatim>\<open>sign_reject\<close> clears the session; \<^verbatim>\<open>delay_reject\<close> answers with no payload.\<close>

definition sign_reject ::
  "('k::zero, 'h::zero, 'c::zero) externals \<Rightarrow> ('k, 'h, 'c) sign_world \<Rightarrow>
     ('k, 'h, 'c) sign_world \<times> outcome" where
  "sign_reject ext w = (w\<lparr>G := clear_data ext\<rparr>, Return [])"

definition ui_callback ::
  "('k::zero, 'h::zero, 'c::zero) externals \<Rightarrow> ui_callback_t \<Rightarrow> ('k, 'h, 'c) sign_world \<Rightarrow>
     ('k, 'h, 'c) sign_world \<times> outcome" where
  "ui_callback ext cb w =
     (case cb of
        CB_sign_without_hash_ok \<Rightarrow> sign_without_hash_ok ext w
      | CB_sign_with_hash_ok \<Rightarrow> sign_with_hash_ok ext w
      | CB_sign_unsafe_ok \<Rightarrow> sign_unsafe_ok ext w
      | CB_sign_reject \<Rightarrow> sign_reject ext w)"

subsection \<open>Completion in the baking and in the wallet build\<close>

definition prompt_register_delegate ::
  "('k, 'h, 'c) apdu_sign_state \<Rightarrow> ui_callback_t \<Rightarrow> ui_callback_t \<Rightarrow> outcome" where
  "prompt_register_delegate g ok_cb cxl_cb =
     (if \<not> is_valid (maybe_ops g) then Throw EXC_MEMORY_ERROR
      else UiPrompt PROMPT_register_delegate ok_cb cxl_cb)"

definition baking_sign_complete ::
  "('k::zero, 'h::zero, 'c::zero) externals \<Rightarrow> bool \<Rightarrow> ('k, 'h, 'c) sign_world \<Rightarrow>
     ('k, 'h, 'c) sign_world \<times> outcome" where
  "baking_sign_complete ext send_hash w =
     (let g = G w in
      case magic_byte g of
        MAGIC_BYTE_BLOCK \<Rightarrow>
          (case guard_baking_authorized_key ext (parsed_baking_data g) (key g) (N_data w) of
             Some e \<Rightarrow> (w, Throw e)
           | None \<Rightarrow> perform_signature ext True send_hash w)
      | MAGIC_BYTE_BAKING_OP \<Rightarrow>
          (case guard_baking_authorized_key ext (parsed_baking_data g) (key g) (N_data w) of
             Some e \<Rightarrow> (w, Throw e)
           | None \<Rightarrow> perform_signature ext True send_hash w)
      | MAGIC_BYTE_UNSAFE_OP \<Rightarrow>
          if \<not> is_valid (maybe_ops g) then (w, Throw EXC_PARSE_ERROR)
          else if bip32_path_with_curve_eq (key g) (baking_key ext (N_data w)) \<and>
                  source (operation (v (maybe_ops g))) = signing (v (maybe_ops g)) \<and>
                  destination (operation (v (maybe_ops g))) = signing (v (maybe_ops g))
          then
            (w, prompt_register_delegate g
                  (if send_hash then CB_sign_with_hash_ok else CB_sign_without_hash_ok)
                  CB_sign_reject)
          else (w, Throw EXC_SECURITY)
      | _ \<Rightarrow> (w, Throw EXC_PARSE_ERROR))"

definition wallet_sign_complete ::
  "('k, 'h, 'c) externals \<Rightarrow> instruction \<Rightarrow> ('k, 'h, 'c) apdu_sign_state \<Rightarrow> outcome" where
  "wallet_sign_complete ext ins g =
     (if ins = INS_SIGN_UNSAFE then UiPrompt PROMPT_prehashed CB_sign_unsafe_ok CB_sign_reject
      else
        let ok_c = (if ins = INS_SIGN_WITH_HASH then CB_sign_with_hash_ok
                    else CB_sign_without_hash_ok);
            unsafe = UiPrompt PROMPT_parse_fail ok_c CB_sign_reject
        in case magic_byte g of
             MAGIC_BYTE_UNSAFE_OP \<Rightarrow>
               if \<not> is_valid (maybe_ops g) then unsafe
               else (case prompt_transaction ext (v (maybe_ops g)) (key g) of
                       PromptShown \<Rightarrow> UiPrompt PROMPT_transaction ok_c CB_sign_reject
                     | PromptThrows e \<Rightarrow> Throw e
                     | PromptDeclined \<Rightarrow> unsafe)
           | MAGIC_BYTE_UNSAFE_OP2 \<Rightarrow> unsafe
           | MAGIC_BYTE_UNSAFE_OP3 \<Rightarrow> unsafe
           | _ \<Rightarrow> Throw EXC_PARSE_ERROR)"

subsection \<open>\<^verbatim>\<open>handle_apdu\<close>\<close>

definition P1_FIRST :: byte where "P1_FIRST = 0x00"
definition P1_NEXT :: byte where "P1_NEXT = 0x01"
definition P1_HASH_ONLY_NEXT :: byte where "P1_HASH_ONLY_NEXT = 0x03"
definition P1_LAST_MARKER :: byte where "P1_LAST_MARKER = 0x80"

definition get_magic_byte_or_throw ::
  "('k, 'h, 'c) externals \<Rightarrow> byte list \<Rightarrow> nat \<Rightarrow> exception + magic_byte" where
  "get_magic_byte_or_throw ext buff' buff_size =
     (case get_magic_byte ext buff' buff_size of
        MAGIC_BYTE_BLOCK \<Rightarrow> if BAKING_APP ext then Inr MAGIC_BYTE_BLOCK else Inl EXC_PARSE_ERROR
      | MAGIC_BYTE_BAKING_OP \<Rightarrow>
          if BAKING_APP ext then Inr MAGIC_BYTE_BAKING_OP else Inl EXC_PARSE_ERROR
      | MAGIC_BYTE_UNSAFE_OP \<Rightarrow> Inr MAGIC_BYTE_UNSAFE_OP
      | _ \<Rightarrow> Inl EXC_PARSE_ERROR)"

definition parse_allowed_operations ::
  "('k, 'h, 'c) externals \<Rightarrow> byte list \<Rightarrow> 'k bip32_path_with_curve_t \<Rightarrow>
     bool \<times> 'c parsed_operation_group" where
  "parse_allowed_operations ext in' key' =
     parse_operations ext in' (derivation_type key') (bip32_path_k key')
       (is_operation_allowed (BAKING_APP ext))"

text \<open>
  \<^verbatim>\<open>case P1_FIRST\<close>: the session is cleared, the path and the derivation type are read,
  and the handler returns an empty success.
\<close>

definition handle_apdu_first ::
  "('k::zero, 'h::zero, 'c::zero) externals \<Rightarrow> apdu \<Rightarrow> ('k, 'h, 'c) apdu_sign_state \<times> outcome" where
  "handle_apdu_first ext a =
     (let g0 = clear_data ext in
      case read_bip32_path ext (buff a) of
        Inl e \<Rightarrow> (g0, Throw e)
      | Inr path \<Rightarrow>
          let g1 = g0\<lparr>key := (key g0)\<lparr>bip32_path_k := path\<rparr>\<rparr> in
          case parse_derivation_type ext (curve_code a) of
            Inl e \<Rightarrow> (g1, Throw e)
          | Inr d \<Rightarrow> (g1\<lparr>key := (key g1)\<lparr>derivation_type := d\<rparr>\<rparr>, Return []))"

text \<open>
  \<^verbatim>\<open>case P1_NEXT\<close> (and, in the wallet build, \<^verbatim>\<open>P1_HASH_ONLY_NEXT\<close>, which falls through
  to it after setting \<^verbatim>\<open>G.hash_only\<close>): the state it leaves and the exception thrown, if
  any.
\<close>

definition handle_apdu_next ::
  "('k, 'h, 'c) apdu_sign_state \<Rightarrow> ('k, 'h, 'c) apdu_sign_state \<times> exception option" where
  "handle_apdu_next g =
     (if length_bp (bip32_path_k (key g)) = 0 then (g, Some EXC_WRONG_LENGTH_FOR_INS)
      else if packet_index g \<ge> 0xFF then (g, Some EXC_PARSE_ERROR)
      else (g\<lparr>packet_index := packet_index g + 1\<rparr>, None))"

text \<open>
  The block under \<^verbatim>\<open>if (enable_parsing)\<close>. The call of \<^verbatim>\<open>parse_baking_data\<close> passes the
  output first; the function is the one of \<^verbatim>\<open>baking_auth.c\<close>.
\<close>

definition handle_apdu_parse ::
  "('k, 'h, 'c) externals \<Rightarrow> byte list \<Rightarrow> ('k, 'h, 'c) apdu_sign_state \<Rightarrow>
     ('k, 'h, 'c) apdu_sign_state \<times> exception option" where
  "handle_apdu_parse ext buff' g =
     (if BAKING_APP ext then
        if packet_index g \<noteq> 1 then (g, Some EXC_PARSE_ERROR)
        else
          case get_magic_byte_or_throw ext buff' (length buff') of
            Inl e \<Rightarrow> (g, Some e)
          | Inr m \<Rightarrow>
              let g1 = g\<lparr>magic_byte := m\<rparr> in
              if m = MAGIC_BYTE_UNSAFE_OP then
                let (ok, ops) = parse_allowed_operations ext buff' (key g1)
                in (g1\<lparr>maybe_ops := \<lparr>is_valid = ok, v = ops\<rparr>\<rparr>, None)
              else
                case parse_baking_data (get_magic_byte ext) buff' (length buff') of
                  None \<Rightarrow> (g1, Some EXC_PARSE_ERROR)
                | Some b \<Rightarrow> (g1\<lparr>parsed_baking_data := b\<rparr>, None)
      else if packet_index g = 1 then
        case get_magic_byte_or_throw ext buff' (length buff') of
          Inl e \<Rightarrow> (g, Some e)
        | Inr m \<Rightarrow>
            let g1 = g\<lparr>magic_byte := m\<rparr>;
                (ok, ops) = parse_allowed_operations ext buff' (key g1)
            in (g1\<lparr>maybe_ops := \<lparr>is_valid = ok, v = ops\<rparr>\<rparr>, None)
      else (g\<lparr>maybe_ops := (maybe_ops g)\<lparr>is_valid := False\<rparr>\<rparr>, None))"

text \<open>\<^verbatim>\<open>blake2b_incremental_hash\<close> applied to the session's buffer, length and hash state.\<close>

definition hash_message_data ::
  "('k, 'h, 'c) externals \<Rightarrow> ('k, 'h, 'c) apdu_sign_state \<Rightarrow>
     ('k, 'h, 'c) apdu_sign_state \<times> exception option" where
  "hash_message_data ext g =
     (case blake2b_incremental_hash (blake2 ext) (message_data g) (sizeof_message_data ext)
             (message_data_length g) (hash_state g) of
        (e, out, len, st) \<Rightarrow>
          (g\<lparr>message_data := out, message_data_length := len, hash_state := st\<rparr>, e))"

text \<open>
  From \<^verbatim>\<open>if (enable_hashing)\<close> to the append: the previous contents are hashed, the
  capacity is checked, and only then the packet is copied behind them.
\<close>

definition handle_apdu_append ::
  "('k, 'h, 'c) externals \<Rightarrow> bool \<Rightarrow> byte list \<Rightarrow> ('k, 'h, 'c) apdu_sign_state \<Rightarrow>
     ('k, 'h, 'c) apdu_sign_state \<times> exception option" where
  "handle_apdu_append ext enable_hashing buff' g =
     (case (if enable_hashing then hash_message_data ext g else (g, None)) of
        (g1, Some e) \<Rightarrow> (g1, Some e)
      | (g1, None) \<Rightarrow>
          if message_data_length g1 + length buff' > sizeof_message_data ext
          then (g1, Some EXC_PARSE_ERROR)
          else
            (g1\<lparr>message_data :=
                   memmove_bytes (message_data g1) (message_data_length g1) buff' (length buff'),
                 message_data_length := message_data_length g1 + length buff'\<rparr>,
             None))"

text \<open>The hashing under \<^verbatim>\<open>if (last)\<close>: this packet is hashed and the final hash taken.\<close>

definition handle_apdu_final_hash ::
  "('k, 'h, 'c) externals \<Rightarrow> ('k, 'h, 'c) apdu_sign_state \<Rightarrow>
     ('k, 'h, 'c) apdu_sign_state \<times> exception option" where
  "handle_apdu_final_hash ext g =
     (case hash_message_data ext g of
        (g1, Some e) \<Rightarrow> (g1, Some e)
      | (g1, None) \<Rightarrow>
          (case blake2b_finish_hash (blake2 ext) (final_hash g1) SIGN_HASH_SIZE (message_data g1)
                  (sizeof_message_data ext) (message_data_length g1) (hash_state g1) of
             (e, digest, out, len, st) \<Rightarrow>
               (g1\<lparr>final_hash := digest, message_data := out, message_data_length := len,
                   hash_state := st\<rparr>, e)))"

text \<open>
  What follows the \<^verbatim>\<open>switch\<close> on the packet kind: parsing, hashing, the append and, on the
  last packet, the final hash and the completion of the build.
\<close>

definition handle_apdu_body ::
  "('k::zero, 'h::zero, 'c::zero) externals \<Rightarrow> instruction \<Rightarrow> bool \<Rightarrow> byte list \<Rightarrow>
     ('k, 'h, 'c) sign_world \<Rightarrow> ('k, 'h, 'c) sign_world \<times> outcome" where
  "handle_apdu_body ext ins last' buff' w =
     (let enable_hashing = (ins \<noteq> INS_SIGN_UNSAFE);
          enable_parsing = enable_hashing
      in case (if enable_parsing then handle_apdu_parse ext buff' (G w) else (G w, None)) of
           (g1, Some e) \<Rightarrow> (w\<lparr>G := g1\<rparr>, Throw e)
         | (g1, None) \<Rightarrow>
             (case handle_apdu_append ext enable_hashing buff' g1 of
                (g2, Some e) \<Rightarrow> (w\<lparr>G := g2\<rparr>, Throw e)
              | (g2, None) \<Rightarrow>
                  if last' then
                    (case (if enable_hashing then handle_apdu_final_hash ext g2 else (g2, None)) of
                       (g3, Some e) \<Rightarrow> (w\<lparr>G := g3\<rparr>, Throw e)
                     | (g3, None) \<Rightarrow>
                         if BAKING_APP ext
                         then baking_sign_complete ext (ins = INS_SIGN_WITH_HASH) (w\<lparr>G := g3\<rparr>)
                         else (w\<lparr>G := g3\<rparr>, wallet_sign_complete ext ins g3))
                  else (w\<lparr>G := g2\<rparr>, Return [])))"

definition handle_apdu ::
  "('k::zero, 'h::zero, 'c::zero) externals \<Rightarrow> instruction \<Rightarrow> apdu \<Rightarrow>
     ('k, 'h, 'c) sign_world \<Rightarrow> ('k, 'h, 'c) sign_world \<times> outcome" where
  "handle_apdu ext ins a w =
     (if length (buff a) > MAX_APDU_SIZE ext then (w, Throw EXC_WRONG_LENGTH_FOR_INS)
      else
        let last' = (p1 a AND P1_LAST_MARKER \<noteq> 0);
            kind = p1 a AND NOT P1_LAST_MARKER
        in if kind = P1_FIRST then
             (case handle_apdu_first ext a of (g, out) \<Rightarrow> (w\<lparr>G := g\<rparr>, out))
           else if kind = P1_HASH_ONLY_NEXT \<and> \<not> BAKING_APP ext then
             (case handle_apdu_next ((G w)\<lparr>hash_only := True\<rparr>) of
                (g, Some e) \<Rightarrow> (w\<lparr>G := g\<rparr>, Throw e)
              | (g, None) \<Rightarrow> handle_apdu_body ext ins last' (buff a) (w\<lparr>G := g\<rparr>))
           else if kind = P1_NEXT then
             (case handle_apdu_next (G w) of
                (g, Some e) \<Rightarrow> (w\<lparr>G := g\<rparr>, Throw e)
              | (g, None) \<Rightarrow> handle_apdu_body ext ins last' (buff a) (w\<lparr>G := g\<rparr>))
           else (w, Throw EXC_WRONG_PARAM))"

text \<open>
  A sequence of packets handled one after the other, as the request loop does: the run
  goes on while the handler returns and stops at the first packet that throws or prompts.
  The result is the machine and the outcome of the last packet handled.
\<close>

fun handle_apdus ::
  "('k::zero, 'h::zero, 'c::zero) externals \<Rightarrow> instruction \<Rightarrow> apdu list \<Rightarrow>
     ('k, 'h, 'c) sign_world \<Rightarrow> ('k, 'h, 'c) sign_world \<times> outcome" where
  "handle_apdus ext ins [] w = (w, Return [])"
| "handle_apdus ext ins [a] w = handle_apdu ext ins a w"
| "handle_apdus ext ins (a # b # rest) w =
     (case handle_apdu ext ins a w of
        (w', Return r) \<Rightarrow> handle_apdus ext ins (b # rest) w'
      | (w', out) \<Rightarrow> (w', out))"

subsection \<open>Hashing a stream of packets\<close>

text \<open>
  The hashing that \<^verbatim>\<open>handle_apdu\<close> does over the payloads of a sequence of packets of
  which the last carries the last marker: every payload goes through the step that hashes
  the previous contents and appends, the last one then through the final hash.
\<close>

fun hash_packets ::
  "('k, 'h, 'c) externals \<Rightarrow> byte list list \<Rightarrow> ('k, 'h, 'c) apdu_sign_state \<Rightarrow>
     ('k, 'h, 'c) apdu_sign_state \<times> exception option" where
  "hash_packets ext [] g = (g, None)"
| "hash_packets ext [p] g =
     (case handle_apdu_append ext True p g of
        (g1, Some e) \<Rightarrow> (g1, Some e)
      | (g1, None) \<Rightarrow> handle_apdu_final_hash ext g1)"
| "hash_packets ext (p # q # ps) g =
     (case handle_apdu_append ext True p g of
        (g1, Some e) \<Rightarrow> (g1, Some e)
      | (g1, None) \<Rightarrow> hash_packets ext (q # ps) g1)"

text \<open>The digest of a byte stream that the primitive is fed in one piece.\<close>

definition blake2b_digest :: "'h blake2b_prim \<Rightarrow> byte list \<Rightarrow> byte list" where
  "blake2b_digest P bytes =
     snd (b2b_final P (b2b_update P (b2b_init P SIGN_HASH_SIZE) bytes) SIGN_HASH_SIZE)"

text \<open>
  The hash state has taken in exactly the bytes \<open>A\<close>: it is not initialised and \<open>A\<close> is
  empty, or it is freshly initialised and \<open>A\<close> is empty, or it is what feeding \<open>A\<close> to a
  fresh state gives.
\<close>

definition absorbed :: "'h blake2b_prim \<Rightarrow> 'h blake2b_hash_state_t \<Rightarrow> byte list \<Rightarrow> bool" where
  "absorbed P st A =
     (if initialized st
      then (A = [] \<and> state st = b2b_init P SIGN_HASH_SIZE) \<or>
           state st = b2b_update P (b2b_init P SIGN_HASH_SIZE) A
      else A = [])"

section \<open>\<^verbatim>\<open>main.c\<close>: the request loop's signing command\<close>

text \<open>
  \<^verbatim>\<open>operationContext\<close>, with the fields the \<^verbatim>\<open>INS_SIGN\<close> command and
  \<^verbatim>\<open>perform_signature\<close> use (the public-key fields serve \<^verbatim>\<open>INS_GET_PUBLIC_KEY\<close> only).
  \<open>data\<close> is the array of \<open>TEZOS_BUFSIZE\<close> bytes.
\<close>

record operationContext_t =
  path_length_oc :: byte
  bip32_path_oc :: "uint32_t list"
  curve_oc :: cx_curve_t
  data :: "byte list"
  datalen :: nat
  hash :: "byte list"

definition TEZOS_BUFSIZE :: nat where
  "TEZOS_BUFSIZE = 1024"

definition HASH_SIZE :: nat where
  "HASH_SIZE = 32"

datatype main_screen = ui_bake_screen | ui_sign_screen

datatype main_callback = CB_bake_ok | CB_sign_ok | CB_sign_cancel

text \<open>
  How the command ends: with \<open>tx\<close> response bytes in \<^verbatim>\<open>G_io_apdu_buffer\<close>, with a thrown
  status word (\<^verbatim>\<open>return_ok\<close> throws \<^verbatim>\<open>0x9000\<close>), or with a screen awaiting the operator.
\<close>

datatype main_outcome =
    Sent "byte list"
  | Raised "16 word"
  | Screen main_screen main_callback main_callback

text \<open>
  What \<^verbatim>\<open>main.c\<close> calls but does not define. \<open>derive_private_key\<close> stands for
  \<^verbatim>\<open>os_perso_derive_node_bip32\<close> followed by \<^verbatim>\<open>cx_ecfp_init_private_key\<close>;
  \<open>cx_ecdsa_sign\<close> also says whether \<^verbatim>\<open>info & CX_ECCINFO_PARITY_ODD\<close> is set;
  \<open>read_bip32_path_m\<close> gives the status word it throws, or the path length it returns
  and the path it stores;
  \<open>is_baking_authorized\<close> is the guard of the version of \<^verbatim>\<open>baking_auth.c\<close> that
  \<^verbatim>\<open>main.c\<close> was written against.
\<close>

record 'pk main_externals =
  get_magic_byte_m :: get_magic_byte_t
  blake2b :: "byte list \<Rightarrow> nat \<Rightarrow> byte list"
  derive_private_key :: "cx_curve_t \<Rightarrow> uint32_t list \<Rightarrow> 'pk"
  cx_eddsa_sign :: "'pk \<Rightarrow> byte list \<Rightarrow> byte list"
  cx_ecdsa_sign :: "'pk \<Rightarrow> byte list \<Rightarrow> byte list \<times> bool"
  read_bip32_path_m :: "byte list \<Rightarrow> 16 word + byte \<times> uint32_t list"
  is_baking_authorized :: "nvram_data \<Rightarrow> byte list \<Rightarrow> nat \<Rightarrow> uint32_t list \<Rightarrow> byte \<Rightarrow> bool"

text \<open>\<^verbatim>\<open>G_io_apdu_buffer[prevtx] |= 0x01\<close> on the signature just written at \<open>prevtx\<close>.\<close>

definition set_parity_bit :: "byte list \<Rightarrow> byte list" where
  "set_parity_bit signature = (case signature of [] \<Rightarrow> [] | b # bs \<Rightarrow> (b OR 0x01) # bs)"

text \<open>
  \<^verbatim>\<open>perform_signature\<close> of \<^verbatim>\<open>main.c\<close>. \<open>response\<close> holds the \<open>tx\<close> bytes already in
  \<^verbatim>\<open>G_io_apdu_buffer\<close>.
\<close>

definition perform_signature_main ::
  "'pk main_externals \<Rightarrow> byte list \<Rightarrow> operationContext_t \<Rightarrow> cx_curve_t world \<Rightarrow>
     cx_curve_t world \<times> operationContext_t \<times> main_outcome" where
  "perform_signature_main ext response ctx w =
     (let w1 = update_high_water_mark (get_magic_byte_m ext) (data ctx) (datalen ctx) w;
          ctx1 = ctx\<lparr>hash := blake2b ext (take (datalen ctx) (data ctx)) HASH_SIZE\<rparr>;
          path = take (unat (path_length_oc ctx1)) (bip32_path_oc ctx1);
          privateKey = derive_private_key ext (curve_oc ctx1) path;
          signed = w1\<lparr>events := events w1 @ [SignCall (curve_oc ctx1) path (hash ctx1)]\<rparr>
      in case curve_oc ctx1 of
           CX_CURVE_Ed25519 \<Rightarrow>
             (signed, ctx1,
              Sent (response @ cx_eddsa_sign ext privateKey (hash ctx1) @ [0x90, 0x00]))
         | CX_CURVE_SECP256K1 \<Rightarrow>
             (let (signature, odd) = cx_ecdsa_sign ext privateKey (hash ctx1)
              in (signed, ctx1,
                  Sent (response @ (if odd then set_parity_bit signature else signature)
                          @ [0x90, 0x00])))
         | _ \<Rightarrow> (w1, ctx1, Raised 0x6B00))"

text \<open>The curve selected by the byte at \<^verbatim>\<open>OFFSET_P2\<close>; other values leave it as it was.\<close>

definition select_curve :: "byte \<Rightarrow> cx_curve_t \<Rightarrow> cx_curve_t" where
  "select_curve p2 old =
     (if p2 = 0 then CX_CURVE_Ed25519
      else if p2 = 1 then CX_CURVE_SECP256K1
      else if p2 = 2 then CX_CURVE_SECP256R1
      else old)"

text \<open>
  \<^verbatim>\<open>case INS_SIGN\<close> of \<^verbatim>\<open>sample_main\<close>, for a packet with control byte \<open>p1'\<close>, the byte
  \<open>p2\<close> and the payload \<open>dataBuffer\<close> of \<open>dataLength\<close> bytes.
\<close>

definition ins_sign ::
  "'pk main_externals \<Rightarrow> byte \<Rightarrow> byte \<Rightarrow> byte list \<Rightarrow> operationContext_t \<Rightarrow> cx_curve_t world \<Rightarrow>
     cx_curve_t world \<times> operationContext_t \<times> main_outcome" where
  "ins_sign ext p1' p2 dataBuffer ctx w =
     (let dataLength = length dataBuffer;
          last' = (p1' AND P1_LAST_MARKER \<noteq> 0);
          kind = p1' AND NOT P1_LAST_MARKER
      in if kind = P1_FIRST then
           (let ctx1 = ctx\<lparr>data := replicate TEZOS_BUFSIZE 0, datalen := 0\<rparr> in
            case read_bip32_path_m ext dataBuffer of
              Inl sw \<Rightarrow> (w, ctx1, Raised sw)
            | Inr (n, path) \<Rightarrow>
                (w, ctx1\<lparr>path_length_oc := n, bip32_path_oc := path,
                         curve_oc := select_curve p2 (curve_oc ctx1)\<rparr>,
                 Raised 0x9000))
         else if kind \<noteq> P1_NEXT then (w, ctx, Raised 0x6B00)
         else if p2 > 2 then (w, ctx, Raised 0x6B00)
         else if datalen ctx + dataLength > TEZOS_BUFSIZE then (w, ctx, Raised 0x6C00)
         else
           let ctx1 = ctx\<lparr>data := memmove_bytes (data ctx) (datalen ctx) dataBuffer dataLength,
                          datalen := datalen ctx + dataLength\<rparr>
           in if \<not> last' then (w, ctx1, Raised 0x9000)
              else
                case get_magic_byte_m ext (data ctx1) (datalen ctx1) of
                  MAGIC_BYTE_BLOCK \<Rightarrow>
                    if is_baking_authorized ext (N_data w) (data ctx1) (datalen ctx1)
                         (bip32_path_oc ctx1) (path_length_oc ctx1)
                    then perform_signature_main ext [] ctx1 w
                    else (w, ctx1, Screen ui_bake_screen CB_bake_ok CB_sign_cancel)
                | MAGIC_BYTE_BAKING_OP \<Rightarrow>
                    if is_baking_authorized ext (N_data w) (data ctx1) (datalen ctx1)
                         (bip32_path_oc ctx1) (path_length_oc ctx1)
                    then perform_signature_main ext [] ctx1 w
                    else (w, ctx1, Screen ui_bake_screen CB_bake_ok CB_sign_cancel)
                | MAGIC_BYTE_UNSAFE_OP \<Rightarrow> (w, ctx1, Screen ui_sign_screen CB_sign_ok CB_sign_cancel)
                | MAGIC_BYTE_UNSAFE_OP2 \<Rightarrow> (w, ctx1, Screen ui_sign_screen CB_sign_ok CB_sign_cancel)
                | MAGIC_BYTE_UNSAFE_OP3 \<Rightarrow> (w, ctx1, Screen ui_sign_screen CB_sign_ok CB_sign_cancel)
                | _ \<Rightarrow> (w, ctx1, Raised 0x6C00))"

section \<open>Orders of effects\<close>

text \<open>
  The order "signature first, persistence after": reading an effect log from its start,
  no \<^verbatim>\<open>nvm_write\<close> is met before a signature has been produced.
\<close>

fun signed_before_written :: "'k event list \<Rightarrow> bool" where
  "signed_before_written [] = True"
| "signed_before_written (NvmWrite nv # es) = False"
| "signed_before_written (SignCall k path msg # es) = True"
| "signed_before_written (ChangeIdleDisplay lvl # es) = signed_before_written es"

text \<open>Whether a log holds a signature at all.\<close>

fun has_signature :: "'k event list \<Rightarrow> bool" where
  "has_signature [] = False"
| "has_signature (SignCall k path msg # es) = True"
| "has_signature (e # es) = has_signature es"

section \<open>Sample data\<close>

text \<open>
  Concrete records, packets and instances of the external functions, on which the
  theorems below are run.
\<close>

definition sample_nvram :: nvram_data where
  "sample_nvram =
     \<lparr>highest_level = 10, had_endorsement = True, curve = CX_CURVE_SECP256K1,
      path_length = 1, bip32_path = [7, 0, 0]\<rparr>"

definition sample_world :: "'k world" where
  "sample_world = \<lparr>N_data = sample_nvram, events = []\<rparr>"

text \<open>A stack slot that held zeroes before \<^verbatim>\<open>authorize_baking\<close> ran.\<close>

definition zeroed_stack :: nvram_data where
  "zeroed_stack =
     \<lparr>highest_level = 0, had_endorsement = False, curve = CX_CURVE_NONE,
      path_length = 0, bip32_path = [0, 0, 0]\<rparr>"

text \<open>\<^verbatim>\<open>CX_CURVE_NONE\<close> is the zero of \<^verbatim>\<open>cx_curve_t\<close>, the value \<^verbatim>\<open>memset\<close> leaves.\<close>

instantiation cx_curve_t :: zero
begin

definition zero_cx_curve_t :: cx_curve_t where
  "zero_cx_curve_t = CX_CURVE_NONE"

instance ..

end

text \<open>A classifier that reads the first byte: 1 a block, 2 an endorsement, 3 to 5 operations.\<close>

definition sample_get_magic_byte :: get_magic_byte_t where
  "sample_get_magic_byte bytes n =
     (if n = 0 then MAGIC_BYTE_INVALID
      else case bytes of
             [] \<Rightarrow> MAGIC_BYTE_INVALID
           | b # _ \<Rightarrow>
               if b = 1 then MAGIC_BYTE_BLOCK
               else if b = 2 then MAGIC_BYTE_BAKING_OP
               else if b = 3 then MAGIC_BYTE_UNSAFE_OP
               else if b = 4 then MAGIC_BYTE_UNSAFE_OP2
               else if b = 5 then MAGIC_BYTE_UNSAFE_OP3
               else MAGIC_BYTE_INVALID)"

text \<open>
  A streaming hash over a numeric state: it adds up the bytes it is fed and gives the sum,
  truncated to a byte, as every byte of the digest.
\<close>

definition sample_blake2 :: "nat blake2b_prim" where
  "sample_blake2 =
     \<lparr>b2b_init = (\<lambda>n. 0),
      b2b_update = (\<lambda>h bytes. h + sum_list (map unat bytes)),
      b2b_final = (\<lambda>h n. (h, replicate n (of_nat h)))\<rparr>"

definition sample_key_of :: "nvram_data \<Rightarrow> cx_curve_t bip32_path_with_curve_t" where
  "sample_key_of nv =
     \<lparr>bip32_path_k = \<lparr>length_bp = path_length nv, components = bip32_path nv\<rparr>,
      derivation_type = curve nv\<rparr>"

text \<open>
  External functions for running \<^verbatim>\<open>apdu_sign.c\<close>: the guard and the mark update are
  built from the functions of \<^verbatim>\<open>baking_auth.c\<close>; the path reader takes the first byte as
  the path length; the parser accepts nothing; the signature is the signed bytes.
\<close>

definition sample_ext :: "bool \<Rightarrow> (cx_curve_t, nat, nat) externals" where
  "sample_ext baking =
     \<lparr>BAKING_APP = baking,
      MAX_APDU_SIZE = 230,
      MAX_BIP32_PATH = 3,
      sizeof_message_data = 1024,
      blake2 = sample_blake2,
      get_magic_byte = sample_get_magic_byte,
      read_bip32_path = (\<lambda>bytes.
        case bytes of
          [] \<Rightarrow> Inl EXC_WRONG_LENGTH_FOR_INS
        | n # rest \<Rightarrow>
            if n = 0 \<or> unat n > 3 then Inl EXC_WRONG_VALUES
            else Inr \<lparr>length_bp = n, components = map ucast (take 3 (rest @ [0, 0, 0]))\<rparr>),
      parse_derivation_type = (\<lambda>b.
        if b = 0 then Inr CX_CURVE_Ed25519
        else if b = 1 then Inr CX_CURVE_SECP256K1
        else if b = 2 then Inr CX_CURVE_SECP256R1
        else Inl EXC_WRONG_PARAM),
      parse_operations = (\<lambda>bytes d path allowed.
        (False, \<lparr>operation = \<lparr>source = 0, destination = 0\<rparr>, signing = 0\<rparr>)),
      prompt_transaction = (\<lambda>ops k. PromptShown),
      guard_baking_authorized_key = (\<lambda>parsed k nv.
        if is_path_authorized nv (derivation_type k) (Some (components (bip32_path_k k)))
             (length_bp (bip32_path_k k)) \<and>
           is_level_authorized nv (level parsed) (is_endorsement parsed)
        then None else Some EXC_SECURITY),
      write_high_water_mark = (\<lambda>parsed w.
        Inr (write_highest_level (level parsed) (is_endorsement parsed) w)),
      baking_key = sample_key_of,
      sign = (\<lambda>k bytes. Inr bytes)\<rparr>"

text \<open>A session after a first packet that named the authorized key of \<open>sample_nvram\<close>.\<close>

definition sample_session :: "(cx_curve_t, nat, nat) apdu_sign_state" where
  "sample_session = (clear_data (sample_ext True))\<lparr>key := sample_key_of sample_nvram\<rparr>"

text \<open>
  The same session with a parsed operation: the discriminator is \<open>MAGIC_BYTE_UNSAFE_OP\<close>
  and the operation goes from \<open>src\<close> to \<open>dst\<close>, the signing identity being 5.
\<close>

definition sample_operation ::
  "bool \<Rightarrow> nat \<Rightarrow> nat \<Rightarrow> (cx_curve_t, nat, nat) sign_world" where
  "sample_operation valid src dst =
     \<lparr>N_data = sample_nvram, events = [],
      G = sample_session
            \<lparr>magic_byte := MAGIC_BYTE_UNSAFE_OP,
             maybe_ops := \<lparr>is_valid = valid,
                           v = \<lparr>operation = \<lparr>source = src, destination = dst\<rparr>, signing = 5\<rparr>\<rparr>\<rparr>\<rparr>"

text \<open>The machine with the persistent record \<open>sample_nvram\<close> and a given session.\<close>

definition sample_machine ::
  "(cx_curve_t, nat, nat) apdu_sign_state \<Rightarrow> (cx_curve_t, nat, nat) sign_world" where
  "sample_machine g = \<lparr>N_data = sample_nvram, events = [], G = g\<rparr>"

text \<open>A packet of kind \<^verbatim>\<open>P1_NEXT\<close>, without the last marker, carrying the given bytes.\<close>

definition next_packet :: "byte list \<Rightarrow> apdu" where
  "next_packet bytes = \<lparr>p1 = P1_NEXT, curve_code = 0, buff = bytes\<rparr>"

text \<open>
  External functions for running \<^verbatim>\<open>main.c\<close>: the hash gives the first bytes of its
  input, the signatures are the hash signed, the guard is built from \<^verbatim>\<open>baking_auth.c\<close>.
\<close>

definition sample_main_ext :: "nat main_externals" where
  "sample_main_ext =
     \<lparr>get_magic_byte_m = sample_get_magic_byte,
      blake2b = (\<lambda>bytes n. take n bytes),
      derive_private_key = (\<lambda>c path. 0),
      cx_eddsa_sign = (\<lambda>k h. h),
      cx_ecdsa_sign = (\<lambda>k h. (h, False)),
      read_bip32_path_m = (\<lambda>bytes. Inl 0x6B00),
      is_baking_authorized = (\<lambda>nv bytes n path len.
        guard_baking_authorized sample_get_magic_byte nv (curve nv) bytes n (Some path) len = None)\<rparr>"

text \<open>A block header at level 11: discriminator, chain id, level, protocol byte.\<close>

definition sample_block :: "byte list" where
  "sample_block = [1, 0, 0, 0, 0, 0, 0, 0, 11, 0]"

text \<open>The context of \<^verbatim>\<open>main.c\<close> holding that block, to be signed on the given curve.\<close>

definition sample_context :: "cx_curve_t \<Rightarrow> operationContext_t" where
  "sample_context c =
     \<lparr>path_length_oc = 1, bip32_path_oc = [7, 0, 0], curve_oc = c,
      data = sample_block @ replicate 6 0, datalen = 10, hash = replicate 32 0\<rparr>"

text \<open>The session of \<^verbatim>\<open>apdu_sign.c\<close> after that block was parsed and hashed.\<close>

definition sample_block_session :: "(cx_curve_t, nat, nat) apdu_sign_state" where
  "sample_block_session =
     sample_session
       \<lparr>magic_byte := MAGIC_BYTE_BLOCK,
        parsed_baking_data := \<lparr>is_endorsement = False, level = 11\<rparr>,
        final_hash := [1, 2, 3]\<rparr>"

section \<open>Properties of the baking guard\<close>

lemma bit_level_mask:
  "bit (0xC0000000 :: 32 word) n \<longleftrightarrow> n = 30 \<or> n = 31"
proof -
  have split: "(0xC0000000 :: 32 word) = 2 ^ 30 OR 2 ^ 31"
    by simp
  have "bit ((2 ^ 30 OR 2 ^ 31) :: 32 word) n \<longleftrightarrow> n = 30 \<or> n = 31"
    by (simp only: bit_or_iff bit_exp_iff) (auto simp add: possible_bit_word)
  then show ?thesis
    by (simp only: split)
qed

lemma is_valid_level_bits:
  "is_valid_level lvl \<longleftrightarrow> \<not> bit lvl 31 \<and> \<not> bit lvl 30"
  unfolding is_valid_level_def
proof
  assume zero: "lvl AND 0xC0000000 = 0"
  have "\<not> bit (lvl AND 0xC0000000) 31" and "\<not> bit (lvl AND 0xC0000000) 30"
    by (simp_all only: zero bit_0_eq) simp_all
  then show "\<not> bit lvl 31 \<and> \<not> bit lvl 30"
    by (simp only: bit_and_iff bit_level_mask) simp
next
  assume clear: "\<not> bit lvl 31 \<and> \<not> bit lvl 30"
  show "lvl AND 0xC0000000 = 0"
  proof (rule bit_eqI)
    fix n
    show "bit (lvl AND 0xC0000000) n = bit (0 :: 32 word) n"
      using clear by (simp only: bit_and_iff bit_level_mask) auto
  qed
qed

lemma is_level_authorized_code:
  "is_level_authorized nv l e \<longleftrightarrow>
     is_valid_level l \<and> (l > highest_level nv \<or> (e \<and> \<not> had_endorsement nv))"
  by (simp add: is_level_authorized_def)

text \<open>
  C1. The claim: for a valid level \<open>L\<close>, the guard permits a signature if and only if
  \<open>L > H\<close>, or \<open>L = H\<close> and it is an endorsement and none was recorded at \<open>H\<close>. The
  code never compares for equality: below the comment "Levels are tied" it returns
  \<open>is_endorsement \<and> \<not> had_endorsement\<close> for every level that is not above the mark, so
  an endorsement at the lower level 5 is authorized against a recorded level 10.
\<close>

theorem is_level_authorized_below_mark:
  "is_valid_level 5 \<and>
   is_level_authorized
     \<lparr>highest_level = 10, had_endorsement = False, curve = CX_CURVE_Ed25519,
      path_length = 1, bip32_path = [0]\<rparr> 5 True \<and>
   \<not> ((5 :: level_t) > 10 \<or> ((5 :: level_t) = 10 \<and> True \<and> \<not> False))"
  by (simp add: is_level_authorized_def is_valid_level_def)

text \<open>
  C7. Level validity is decided on the level alone: a 32-bit level is malformed exactly
  when bit 31 or bit 30 is set, and a malformed level is refused by the guard whatever
  the recorded high-water mark is, also when the level is above it.
\<close>

theorem level_validity_independent:
  "(\<not> is_valid_level lvl \<longleftrightarrow> bit lvl 31 \<or> bit lvl 30) \<and>
   (\<forall>nv e. \<not> is_valid_level lvl \<longrightarrow> \<not> is_level_authorized nv lvl e)"
  by (auto simp add: is_valid_level_bits is_level_authorized_def)

theorem level_validity_independent_witness:
  "\<not> is_valid_level 0xC0000005 \<and>
   (0xC0000005 :: level_t) >
     highest_level \<lparr>highest_level = 7, had_endorsement = False, curve = CX_CURVE_Ed25519,
       path_length = 1, bip32_path = [0]\<rparr> \<and>
   \<not> is_level_authorized
     \<lparr>highest_level = 7, had_endorsement = False, curve = CX_CURVE_Ed25519,
      path_length = 1, bip32_path = [0]\<rparr> 0xC0000005 True"
proof -
  have bad: "\<not> is_valid_level 0xC0000005"
    by (simp add: is_valid_level_def)
  from level_validity_independent [of "0xC0000005"] bad show ?thesis
    by simp
qed

section \<open>Properties of the allow-list\<close>

text \<open>
  C9. The allow-list has two tiers: in the baking build exactly the reveal and delegation
  tags (of both protocol generations) are allowed; the wallet build allows those and
  exactly the proposal, ballot, origination and transaction tags in addition; every
  other tag is refused in both builds.
\<close>

theorem is_operation_allowed_tiers:
  "(is_operation_allowed True tag \<longleftrightarrow>
      tag \<in> {OPERATION_TAG_ATHENS_REVEAL, OPERATION_TAG_BABYLON_REVEAL,
              OPERATION_TAG_ATHENS_DELEGATION, OPERATION_TAG_BABYLON_DELEGATION}) \<and>
   (is_operation_allowed False tag \<longleftrightarrow>
      is_operation_allowed True tag \<or>
      tag \<in> {OPERATION_TAG_PROPOSAL, OPERATION_TAG_BALLOT,
              OPERATION_TAG_ATHENS_ORIGINATION, OPERATION_TAG_BABYLON_ORIGINATION,
              OPERATION_TAG_ATHENS_TRANSACTION, OPERATION_TAG_BABYLON_TRANSACTION})"
  by (cases tag) (simp_all add: is_operation_allowed_def)

theorem is_operation_allowed_tiers_witness:
  "is_operation_allowed True OPERATION_TAG_BABYLON_DELEGATION \<and>
   \<not> is_operation_allowed True OPERATION_TAG_BABYLON_TRANSACTION \<and>
   is_operation_allowed False OPERATION_TAG_BABYLON_TRANSACTION \<and>
   \<not> is_operation_allowed False OPERATION_TAG_NONE \<and>
   \<not> is_operation_allowed False (OPERATION_TAG_OTHER 4)"
  using is_operation_allowed_tiers [of OPERATION_TAG_BABYLON_DELEGATION]
    is_operation_allowed_tiers [of OPERATION_TAG_BABYLON_TRANSACTION]
    is_operation_allowed_tiers [of OPERATION_TAG_NONE]
    is_operation_allowed_tiers [of "OPERATION_TAG_OTHER 4"]
  by simp

section \<open>Properties of the key authorization\<close>

lemma authorize_baking_valid:
  "0 < unat n \<Longrightarrow> unat n \<le> M \<Longrightarrow>
   authorize_baking M uninit c (Some p) n w =
     w\<lparr>N_data := uninit\<lparr>highest_level := highest_level (N_data w), curve := c,
                          path_length := n,
                          bip32_path := take (unat n) p @ drop (unat n) (bip32_path uninit)\<rparr>,
       events := events w @
         [NvmWrite (uninit\<lparr>highest_level := highest_level (N_data w), curve := c,
                          path_length := n,
                          bip32_path := take (unat n) p @ drop (unat n) (bip32_path uninit)\<rparr>),
          ChangeIdleDisplay (highest_level (N_data w))]\<rparr>"
  by (auto simp add: authorize_baking_def nvm_write_def change_idle_display_def memcpy_words_def
      Let_def unat_eq_0)

text \<open>
  C6. The claim: after \<^verbatim>\<open>authorize_baking\<close> with a valid curve and path both fields of the
  high-water mark are as before. The record written is the uninitialised local with four
  fields assigned; \<^verbatim>\<open>had_endorsement\<close> is not among them, so the record keeps the recorded
  level but takes the flag from whatever the stack held. With a recorded flag \<open>True\<close> and
  a stack slot of zeroes the flag is \<open>False\<close> afterwards.
\<close>

theorem authorize_baking_drops_had_endorsement:
  "had_endorsement (N_data (sample_world :: cx_curve_t world)) \<and>
   \<not> had_endorsement
       (N_data (authorize_baking 3 zeroed_stack CX_CURVE_Ed25519 (Some [44, 1729]) 2
          (sample_world :: cx_curve_t world))) \<and>
   highest_level
       (N_data (authorize_baking 3 zeroed_stack CX_CURVE_Ed25519 (Some [44, 1729]) 2
          (sample_world :: cx_curve_t world))) = 10"
  by (simp add: authorize_baking_def nvm_write_def change_idle_display_def memcpy_words_def
      sample_world_def sample_nvram_def zeroed_stack_def Let_def)

text \<open>
  C10. A call of \<^verbatim>\<open>authorize_baking\<close> whose path is \<^verbatim>\<open>NULL\<close>, has length zero or is
  longer than \<^verbatim>\<open>MAX_BIP32_PATH\<close> returns with the machine as it was: the persistent record
  is untouched, nothing is written or displayed, and the function, which returns \<^verbatim>\<open>void\<close>
  and has no \<^verbatim>\<open>THROW\<close>, reports nothing.
\<close>

theorem authorize_baking_invalid_path:
  "bip32_path' = None \<or> path_length' = 0 \<or> unat path_length' > MAX_BIP32_PATH' \<Longrightarrow>
   authorize_baking MAX_BIP32_PATH' uninit curve' bip32_path' path_length' w = w"
  by (auto simp add: authorize_baking_def split: option.splits)

theorem authorize_baking_invalid_path_witness:
  "authorize_baking 3 zeroed_stack CX_CURVE_Ed25519 None 2
     (sample_world :: cx_curve_t world) = sample_world \<and>
   authorize_baking 3 zeroed_stack CX_CURVE_Ed25519 (Some [44, 1729]) 0
     (sample_world :: cx_curve_t world) = sample_world \<and>
   authorize_baking 3 zeroed_stack CX_CURVE_Ed25519 (Some [44, 1729, 0, 0]) 4
     (sample_world :: cx_curve_t world) = sample_world"
  using
    authorize_baking_invalid_path
      [of None 2 3 zeroed_stack CX_CURVE_Ed25519 "sample_world :: cx_curve_t world"]
    authorize_baking_invalid_path
      [of "Some [44, 1729]" 0 3 zeroed_stack CX_CURVE_Ed25519 "sample_world :: cx_curve_t world"]
    authorize_baking_invalid_path
      [of "Some [44, 1729, 0, 0]" 4 3 zeroed_stack CX_CURVE_Ed25519
        "sample_world :: cx_curve_t world"]
  by simp

section \<open>Further properties of the baking guard\<close>

text \<open>
  For a valid level at or above the recorded one the guard is the high-water-mark
  rule: the signature is permitted exactly when the level is above the mark, or equal to
  it for an endorsement when none has been recorded at that level.
\<close>

lemma is_level_authorized_at_or_above_mark:
  "is_valid_level l \<Longrightarrow> highest_level nv \<le> l \<Longrightarrow>
   is_level_authorized nv l e \<longleftrightarrow>
     l > highest_level nv \<or> (l = highest_level nv \<and> e \<and> \<not> had_endorsement nv)"
  by (auto simp add: is_level_authorized_def)

lemma is_level_authorized_at_or_above_mark_example:
  "\<not> is_level_authorized (sample_nvram\<lparr>highest_level := 100, had_endorsement := False\<rparr>) 100 False \<and>
   is_level_authorized (sample_nvram\<lparr>highest_level := 100, had_endorsement := False\<rparr>) 100 True \<and>
   \<not> is_level_authorized (sample_nvram\<lparr>highest_level := 100, had_endorsement := True\<rparr>) 100 True \<and>
   is_level_authorized (sample_nvram\<lparr>highest_level := 100, had_endorsement := True\<rparr>) 101 False"
proof -
  have v: "is_valid_level 100" "is_valid_level 101"
    by (simp_all add: is_valid_level_def)
  show ?thesis
    using
      is_level_authorized_at_or_above_mark
        [of 100 "sample_nvram\<lparr>highest_level := 100, had_endorsement := False\<rparr>" False]
      is_level_authorized_at_or_above_mark
        [of 100 "sample_nvram\<lparr>highest_level := 100, had_endorsement := False\<rparr>" True]
      is_level_authorized_at_or_above_mark
        [of 100 "sample_nvram\<lparr>highest_level := 100, had_endorsement := True\<rparr>" True]
      is_level_authorized_at_or_above_mark
        [of 101 "sample_nvram\<lparr>highest_level := 100, had_endorsement := True\<rparr>" False]
      v
    by simp
qed

text \<open>
  Authorization binding: when the curve, the path length or one of the path indices
  of the session key differs from the authorized key, \<^verbatim>\<open>guard_baking_authorized\<close> throws
  \<^verbatim>\<open>EXC_SECURITY\<close>, whatever the payload and its level are.
\<close>

lemma guard_baking_authorized_binding:
  "c \<noteq> curve nv \<or> n \<noteq> path_length nv \<or>
     take (unat n) p \<noteq> take (unat n) (bip32_path nv) \<Longrightarrow>
   guard_baking_authorized gmb nv c bytes len (Some p) n = Some EXC_SECURITY"
  by (auto simp add: guard_baking_authorized_def is_path_authorized_def)

lemma guard_baking_authorized_binding_example:
  "guard_baking_authorized sample_get_magic_byte sample_nvram CX_CURVE_Ed25519
     (sample_block @ replicate 6 0) 10 (Some [7, 0, 0]) 1 = Some EXC_SECURITY \<and>
   guard_baking_authorized sample_get_magic_byte sample_nvram CX_CURVE_SECP256K1
     (sample_block @ replicate 6 0) 10 (Some [8, 0, 0]) 1 = Some EXC_SECURITY \<and>
   guard_baking_authorized sample_get_magic_byte sample_nvram CX_CURVE_SECP256K1
     (sample_block @ replicate 6 0) 10 (Some [7, 0, 0]) 1 = None"
proof -
  have a: "guard_baking_authorized sample_get_magic_byte sample_nvram CX_CURVE_Ed25519
     (sample_block @ replicate 6 0) 10 (Some [7, 0, 0]) 1 = Some EXC_SECURITY"
    using guard_baking_authorized_binding [of CX_CURVE_Ed25519 sample_nvram 1 "[7, 0, 0]"
        sample_get_magic_byte "sample_block @ replicate 6 0" 10]
    by (simp add: sample_nvram_def)
  have b: "guard_baking_authorized sample_get_magic_byte sample_nvram CX_CURVE_SECP256K1
     (sample_block @ replicate 6 0) 10 (Some [8, 0, 0]) 1 = Some EXC_SECURITY"
    using guard_baking_authorized_binding [of CX_CURVE_SECP256K1 sample_nvram 1 "[8, 0, 0]"
        sample_get_magic_byte "sample_block @ replicate 6 0" 10]
    by (simp add: sample_nvram_def)
  have p: "parse_baking_data sample_get_magic_byte (sample_block @ replicate 6 0) 10 =
      Some \<lparr>is_endorsement = False, level = 11\<rparr>"
    by (simp add: parse_baking_data_def sample_get_magic_byte_def sample_block_def
        sizeof_block_def READ_UNALIGNED_BIG_ENDIAN_def word_rcat_def)
  have c: "guard_baking_authorized sample_get_magic_byte sample_nvram CX_CURVE_SECP256K1
     (sample_block @ replicate 6 0) 10 (Some [7, 0, 0]) 1 = None"
    by (simp add: guard_baking_authorized_def is_path_authorized_def p is_level_authorized_def
        is_valid_level_def sample_nvram_def)
  from a b c show ?thesis by simp
qed

section \<open>Properties of the signing session\<close>

subsection \<open>The buffered length never grows except by an accepted append\<close>

lemma loop_length_le:
  "blake2b_incremental_loop P out sz cur len st = (e, cur', len', st') \<Longrightarrow> len' \<le> len"
proof (induction P out sz cur len st rule: blake2b_incremental_loop.induct)
  case (1 P out out_size current out_length st)
  show ?case
  proof (cases "out_length > B2B_BLOCKBYTES \<and> \<not> current > out_size")
    case True
    with "1.prems" have "blake2b_incremental_loop P out out_size (current + B2B_BLOCKBYTES)
        (out_length - B2B_BLOCKBYTES)
        ((conditional_init_hash_state P st)\<lparr>state := b2b_update P (state (conditional_init_hash_state P st))
            (take B2B_BLOCKBYTES (drop current out))\<rparr>) = (e, cur', len', st')"
      by (simp add: blake2b_incremental_loop.simps [of P out out_size current out_length st] Let_def)
    with True "1.IH" have "len' \<le> out_length - B2B_BLOCKBYTES"
      by simp
    then show ?thesis by simp
  next
    case False
    with "1.prems" show ?thesis
      by (auto simp add: blake2b_incremental_loop.simps [of P out out_size current out_length st]
          split: if_splits)
  qed
qed

lemma incremental_hash_length_le:
  "blake2b_incremental_hash P out sz len st = (e, out', len', st') \<Longrightarrow> len' \<le> len"
  by (auto simp add: blake2b_incremental_hash_def split: prod.splits option.splits
      dest: loop_length_le)

lemma hash_message_data_length_le:
  "message_data_length (fst (hash_message_data ext g)) \<le> message_data_length g"
  by (auto simp add: hash_message_data_def split: prod.splits dest: incremental_hash_length_le)

lemma finish_hash_length_le:
  "blake2b_finish_hash P out osz b bsz len st = (e, d, b', len', st') \<Longrightarrow> len' \<le> len"
  by (auto simp add: blake2b_finish_hash_def Let_def split: prod.splits option.splits
      dest: incremental_hash_length_le)

lemma final_hash_length_le:
  "message_data_length (fst (handle_apdu_final_hash ext g)) \<le> message_data_length g"
proof -
  obtain g1 e1 where h: "hash_message_data ext g = (g1, e1)" by (cases "hash_message_data ext g")
  then have l1: "message_data_length g1 \<le> message_data_length g"
    using hash_message_data_length_le [of ext g] by simp
  show ?thesis
  proof (cases e1)
    case (Some x)
    with h l1 show ?thesis by (simp add: handle_apdu_final_hash_def)
  next
    case None
    obtain e d b' len' st' where f: "blake2b_finish_hash (blake2 ext) (final_hash g1) SIGN_HASH_SIZE
        (message_data g1) (sizeof_message_data ext) (message_data_length g1) (hash_state g1) = (e, d, b', len', st')"
      by (metis prod_cases5)
    then have "len' \<le> message_data_length g1" by (rule finish_hash_length_le)
    with h None f l1 show ?thesis by (simp add: handle_apdu_final_hash_def)
  qed
qed

lemma parse_length:
  "message_data_length (fst (handle_apdu_parse ext b g)) = message_data_length g"
  by (auto simp add: handle_apdu_parse_def Let_def split: sum.splits prod.splits option.splits)

lemma next_length:
  "message_data_length (fst (handle_apdu_next g)) = message_data_length g"
  by (simp add: handle_apdu_next_def)

lemma clear_data_length: "message_data_length (clear_data ext) = 0"
  by (simp add: clear_data_def)

lemma perform_signature_sign_length:
  "message_data_length (G (fst (perform_signature_sign ext a b w))) \<le> message_data_length (G w)"
  by (auto simp add: perform_signature_sign_def Let_def clear_data_length split: sum.splits)

lemma perform_signature_length:
  "message_data_length (G (fst (perform_signature ext a b w))) \<le> message_data_length (G w)"
proof -
  have "message_data_length (G (fst (perform_signature_sign ext a b (w\<lparr>N_data := n, events := ev\<rparr>))))
      \<le> message_data_length (G w)" for n ev
    using perform_signature_sign_length [of ext a b "w\<lparr>N_data := n, events := ev\<rparr>"] by simp
  then show ?thesis
    using perform_signature_sign_length [of ext a b w]
    by (auto simp add: perform_signature_def clear_data_length split: sum.splits)
qed

lemma baking_sign_complete_length:
  "message_data_length (G (fst (baking_sign_complete ext sh w))) \<le> message_data_length (G w)"
  using perform_signature_length [of ext True sh w]
  by (auto simp add: baking_sign_complete_def Let_def split: magic_byte.splits option.splits)

lemma append_accepts_bound:
  "handle_apdu_append ext eh b g = (g2, None) \<Longrightarrow> message_data_length g2 \<le> sizeof_message_data ext"
  by (auto simp add: handle_apdu_append_def split: prod.splits option.splits if_splits)

lemma first_length: "message_data_length (fst (handle_apdu_first ext a)) = 0"
  by (auto simp add: handle_apdu_first_def Let_def clear_data_length split: sum.splits)

lemma body_accepts_bound:
  assumes "handle_apdu_body ext ins l b w = (w', out)" and "\<forall>e. out \<noteq> Throw e"
  shows "message_data_length (G w') \<le> sizeof_message_data ext"
proof -
  obtain g1 e1 where p: "(if ins \<noteq> INS_SIGN_UNSAFE then handle_apdu_parse ext b (G w) else (G w, None)) = (g1, e1)"
    by (cases "(if ins \<noteq> INS_SIGN_UNSAFE then handle_apdu_parse ext b (G w) else (G w, None))")
  obtain g2 e2 where a: "handle_apdu_append ext (ins \<noteq> INS_SIGN_UNSAFE) b g1 = (g2, e2)"
    by (cases "handle_apdu_append ext (ins \<noteq> INS_SIGN_UNSAFE) b g1")
  obtain g3 e3 where f: "(if ins \<noteq> INS_SIGN_UNSAFE then handle_apdu_final_hash ext g2 else (g2, None)) = (g3, e3)"
    by (cases "(if ins \<noteq> INS_SIGN_UNSAFE then handle_apdu_final_hash ext g2 else (g2, None))")
  from assms p have e1: "e1 = None"
    by (cases e1) (auto simp add: handle_apdu_body_def Let_def)
  from assms p a e1 have e2: "e2 = None"
    by (cases e2) (auto simp add: handle_apdu_body_def Let_def)
  from a e2 have b2: "message_data_length g2 \<le> sizeof_message_data ext"
    by (auto dest: append_accepts_bound)
  from f have b3: "message_data_length g3 \<le> message_data_length g2"
    using final_hash_length_le [of ext g2] by (auto split: if_splits)
  show ?thesis
  proof (cases l)
    case False
    with assms p a e1 e2 b2 show ?thesis
      by (auto simp add: handle_apdu_body_def Let_def)
  next
    case True
    with assms p a f e1 e2 have e3: "e3 = None"
      by (cases e3) (auto simp add: handle_apdu_body_def Let_def)
    from True assms p a f e1 e2 e3 have
      "(w', out) = (if BAKING_APP ext
          then baking_sign_complete ext (ins = INS_SIGN_WITH_HASH) (w\<lparr>G := g3\<rparr>)
          else (w\<lparr>G := g3\<rparr>, wallet_sign_complete ext ins g3))"
      by (simp add: handle_apdu_body_def Let_def)
    then have "message_data_length (G w') \<le> message_data_length g3"
      using baking_sign_complete_length [of ext "ins = INS_SIGN_WITH_HASH" "w\<lparr>G := g3\<rparr>"]
      by (auto split: if_splits simp add: fst_def split: prod.splits)
    with b2 b3 show ?thesis by simp
  qed
qed

lemma P1_distinct:
  "P1_NEXT \<noteq> P1_FIRST" "P1_NEXT \<noteq> P1_HASH_ONLY_NEXT" "P1_FIRST \<noteq> P1_HASH_ONLY_NEXT"
  by (simp_all add: P1_NEXT_def P1_FIRST_def P1_HASH_ONLY_NEXT_def)

lemma handle_apdu_accepts_bound:
  assumes "handle_apdu ext ins a w = (w', out)" and "\<forall>e. out \<noteq> Throw e"
  shows "message_data_length (G w') \<le> sizeof_message_data ext"
proof -
  from assms have sz: "\<not> length (buff a) > MAX_APDU_SIZE ext"
    by (auto simp add: handle_apdu_def)
  let ?kind = "p1 a AND NOT P1_LAST_MARKER"
  let ?last = "p1 a AND P1_LAST_MARKER \<noteq> 0"
  consider (first) "?kind = P1_FIRST"
    | (hash_only) "?kind \<noteq> P1_FIRST" "?kind = P1_HASH_ONLY_NEXT \<and> \<not> BAKING_APP ext"
    | (nxt) "?kind \<noteq> P1_FIRST" "\<not> (?kind = P1_HASH_ONLY_NEXT \<and> \<not> BAKING_APP ext)" "?kind = P1_NEXT"
    | (other) "?kind \<noteq> P1_FIRST" "\<not> (?kind = P1_HASH_ONLY_NEXT \<and> \<not> BAKING_APP ext)" "?kind \<noteq> P1_NEXT"
    by blast
  then show ?thesis
  proof cases
    case first
    with assms sz have "w' = w\<lparr>G := fst (handle_apdu_first ext a)\<rparr>"
      by (auto simp add: handle_apdu_def Let_def split: prod.splits)
    then show ?thesis by (simp add: first_length)
  next
    case hash_only
    obtain g e where n: "handle_apdu_next ((G w)\<lparr>hash_only := True\<rparr>) = (g, e)"
      by (cases "handle_apdu_next ((G w)\<lparr>hash_only := True\<rparr>)")
    with assms sz hash_only have "e = None"
      by (cases e) (auto simp add: handle_apdu_def Let_def)
    with assms sz hash_only n have "handle_apdu_body ext ins ?last (buff a) (w\<lparr>G := g\<rparr>) = (w', out)"
      by (auto simp add: handle_apdu_def Let_def)
    then show ?thesis using assms(2) by (rule body_accepts_bound)
  next
    case nxt
    obtain g e where n: "handle_apdu_next (G w) = (g, e)"
      by (cases "handle_apdu_next (G w)")
    with assms sz nxt have "e = None"
      by (cases e) (auto simp add: handle_apdu_def Let_def)
    with assms sz nxt n have "handle_apdu_body ext ins ?last (buff a) (w\<lparr>G := g\<rparr>) = (w', out)"
      by (auto simp add: handle_apdu_def Let_def)
    then show ?thesis using assms(2) by (rule body_accepts_bound)
  next
    case other
    with assms sz show ?thesis
      by (auto simp add: handle_apdu_def Let_def)
  qed
qed

lemma append_keeps_bound:
  assumes "message_data_length g \<le> sizeof_message_data ext"
  shows "message_data_length (fst (handle_apdu_append ext eh b g)) \<le> sizeof_message_data ext"
proof -
  obtain g1 e1 where h: "(if eh then hash_message_data ext g else (g, None)) = (g1, e1)"
    by (cases "(if eh then hash_message_data ext g else (g, None))")
  then have "message_data_length g1 \<le> message_data_length g"
    using hash_message_data_length_le [of ext g] by (auto split: if_splits)
  with assms have b: "message_data_length g1 \<le> sizeof_message_data ext" by simp
  from h b show ?thesis
    by (cases e1) (auto simp add: handle_apdu_append_def)
qed

lemma body_keeps_bound:
  assumes "message_data_length (G w) \<le> sizeof_message_data ext"
  shows "message_data_length (G (fst (handle_apdu_body ext ins l b w))) \<le> sizeof_message_data ext"
proof -
  obtain g1 e1 where p: "(if ins \<noteq> INS_SIGN_UNSAFE then handle_apdu_parse ext b (G w) else (G w, None)) = (g1, e1)"
    by (cases "(if ins \<noteq> INS_SIGN_UNSAFE then handle_apdu_parse ext b (G w) else (G w, None))")
  then have "message_data_length g1 = message_data_length (G w)"
    using parse_length [of ext b "G w"] by (auto split: if_splits)
  with assms have b1: "message_data_length g1 \<le> sizeof_message_data ext" by simp
  obtain g2 e2 where a: "handle_apdu_append ext (ins \<noteq> INS_SIGN_UNSAFE) b g1 = (g2, e2)"
    by (cases "handle_apdu_append ext (ins \<noteq> INS_SIGN_UNSAFE) b g1")
  with append_keeps_bound [OF b1, of "ins \<noteq> INS_SIGN_UNSAFE" b]
  have b2: "message_data_length g2 \<le> sizeof_message_data ext" by simp
  obtain g3 e3 where f: "(if ins \<noteq> INS_SIGN_UNSAFE then handle_apdu_final_hash ext g2 else (g2, None)) = (g3, e3)"
    by (cases "(if ins \<noteq> INS_SIGN_UNSAFE then handle_apdu_final_hash ext g2 else (g2, None))")
  then have "message_data_length g3 \<le> message_data_length g2"
    using final_hash_length_le [of ext g2] by (auto split: if_splits)
  with b2 have b3: "message_data_length g3 \<le> sizeof_message_data ext" by simp
  have b4: "message_data_length (G (fst (baking_sign_complete ext sh (w\<lparr>G := g3\<rparr>)))) \<le>
      sizeof_message_data ext" for sh
    using baking_sign_complete_length [of ext sh "w\<lparr>G := g3\<rparr>"] b3 by simp
  show ?thesis
  proof (cases e1)
    case (Some x)
    with p b1 show ?thesis by (simp add: handle_apdu_body_def Let_def)
  next
    case None
    note n1 = this
    show ?thesis
    proof (cases e2)
      case (Some x)
      with p a n1 b2 show ?thesis by (simp add: handle_apdu_body_def Let_def)
    next
      case None
      note n2 = this
      show ?thesis
      proof (cases e3)
        case (Some x)
        with p a f n1 n2 b2 b3 show ?thesis by (simp add: handle_apdu_body_def Let_def)
      next
        case None
        with p a f n1 n2 b2 b3 b4 show ?thesis by (simp add: handle_apdu_body_def Let_def)
      qed
    qed
  qed
qed

lemma handle_apdu_keeps_bound:
  assumes "message_data_length (G w) \<le> sizeof_message_data ext"
  shows "message_data_length (G (fst (handle_apdu ext ins a w))) \<le> sizeof_message_data ext"
proof -
  have nxt: "message_data_length
        (G (fst (case handle_apdu_next g of
                   (g', Some e) \<Rightarrow> (w\<lparr>G := g'\<rparr>, Throw e)
                 | (g', None) \<Rightarrow> handle_apdu_body ext ins l (buff a) (w\<lparr>G := g'\<rparr>)))) \<le>
      sizeof_message_data ext"
    if "message_data_length g \<le> sizeof_message_data ext" for g l
  proof -
    obtain g' e where n: "handle_apdu_next g = (g', e)" by (cases "handle_apdu_next g")
    then have "message_data_length g' = message_data_length g"
      using next_length [of g] by simp
    with that have b: "message_data_length (G (w\<lparr>G := g'\<rparr>)) \<le> sizeof_message_data ext" by simp
    from n b body_keeps_bound [OF b, of ins l "buff a"] show ?thesis
      by (cases e) simp_all
  qed
  from assms have "message_data_length ((G w)\<lparr>hash_only := True\<rparr>) \<le> sizeof_message_data ext"
    by simp
  note hash_only = nxt [OF this]
  have first: "message_data_length
      (G (fst (case handle_apdu_first ext a of (g, out) \<Rightarrow> (w\<lparr>G := g\<rparr>, out)))) \<le>
      sizeof_message_data ext"
    using first_length [of ext a] by (simp add: split_beta)
  show ?thesis
    unfolding handle_apdu_def Let_def
    using first hash_only nxt [OF assms] assms by simp
qed

lemma handle_apdu_refuses_overflow:
  assumes "length (buff a) \<le> MAX_APDU_SIZE ext"
    and "(p1 a AND NOT P1_LAST_MARKER = P1_NEXT \<and> handle_apdu_next (G w) = (g0, None)) \<or>
         (p1 a AND NOT P1_LAST_MARKER = P1_HASH_ONLY_NEXT \<and> \<not> BAKING_APP ext \<and>
          handle_apdu_next ((G w)\<lparr>hash_only := True\<rparr>) = (g0, None))"
    and "(if ins \<noteq> INS_SIGN_UNSAFE then handle_apdu_parse ext (buff a) g0 else (g0, None)) = (g1, None)"
    and "(if ins \<noteq> INS_SIGN_UNSAFE then hash_message_data ext g1 else (g1, None)) = (g2, None)"
    and "message_data_length g2 + length (buff a) > sizeof_message_data ext"
  shows "handle_apdu ext ins a w = (w\<lparr>G := g2\<rparr>, Throw EXC_PARSE_ERROR)"
proof -
  from assms(4,5) have "handle_apdu_append ext (ins \<noteq> INS_SIGN_UNSAFE) (buff a) g1 =
      (g2, Some EXC_PARSE_ERROR)"
    by (auto simp add: handle_apdu_append_def split: if_splits)
  with assms(3) have body: "handle_apdu_body ext ins l (buff a) (w\<lparr>G := g0\<rparr>) =
      (w\<lparr>G := g2\<rparr>, Throw EXC_PARSE_ERROR)" for l
    by (auto simp add: handle_apdu_body_def Let_def split: if_splits)
  from assms(2) show ?thesis
  proof
    assume "p1 a AND NOT P1_LAST_MARKER = P1_NEXT \<and> handle_apdu_next (G w) = (g0, None)"
    with assms(1) body show ?thesis
      by (simp add: handle_apdu_def Let_def P1_distinct)
  next
    assume "p1 a AND NOT P1_LAST_MARKER = P1_HASH_ONLY_NEXT \<and> \<not> BAKING_APP ext \<and>
        handle_apdu_next ((G w)\<lparr>hash_only := True\<rparr>) = (g0, None)"
    with assms(1) body show ?thesis
      by (simp add: handle_apdu_def Let_def P1_distinct P1_distinct [symmetric])
  qed
qed

text \<open>
  C8. The buffered length never exceeds the capacity \<^verbatim>\<open>sizeof(G.message_data)\<close>. A packet
  (of kind \<^verbatim>\<open>P1_NEXT\<close> or, in the wallet build, \<^verbatim>\<open>P1_HASH_ONLY_NEXT\<close>) that gets as far as
  the capacity check and whose bytes would not fit behind the bytes buffered at that
  moment makes \<^verbatim>\<open>handle_apdu\<close> throw \<^verbatim>\<open>EXC_PARSE_ERROR\<close>, with the
  session as it was before the copy (\<open>g2\<close>, the state the check ran on). Whenever
  \<^verbatim>\<open>handle_apdu\<close> does not throw, the buffered length afterwards is within the capacity;
  and a length within the capacity stays so whatever the outcome is.
\<close>

theorem message_buffer_within_capacity:
  "(\<forall>g0 g1 g2.
      length (buff a) \<le> MAX_APDU_SIZE ext \<and>
      ((p1 a AND NOT P1_LAST_MARKER = P1_NEXT \<and> handle_apdu_next (G w) = (g0, None)) \<or>
       (p1 a AND NOT P1_LAST_MARKER = P1_HASH_ONLY_NEXT \<and> \<not> BAKING_APP ext \<and>
        handle_apdu_next ((G w)\<lparr>hash_only := True\<rparr>) = (g0, None))) \<and>
      (if ins \<noteq> INS_SIGN_UNSAFE then handle_apdu_parse ext (buff a) g0 else (g0, None)) =
        (g1, None) \<and>
      (if ins \<noteq> INS_SIGN_UNSAFE then hash_message_data ext g1 else (g1, None)) = (g2, None) \<and>
      message_data_length g2 + length (buff a) > sizeof_message_data ext \<longrightarrow>
      handle_apdu ext ins a w = (w\<lparr>G := g2\<rparr>, Throw EXC_PARSE_ERROR)) \<and>
   (\<forall>w' out.
      handle_apdu ext ins a w = (w', out) \<and> (\<forall>e. out \<noteq> Throw e) \<longrightarrow>
      message_data_length (G w') \<le> sizeof_message_data ext) \<and>
   (message_data_length (G w) \<le> sizeof_message_data ext \<longrightarrow>
      message_data_length (G (fst (handle_apdu ext ins a w))) \<le> sizeof_message_data ext)"
proof -
  have refuse: "handle_apdu ext ins a w = (w\<lparr>G := g2\<rparr>, Throw EXC_PARSE_ERROR)"
    if "length (buff a) \<le> MAX_APDU_SIZE ext"
      and "(p1 a AND NOT P1_LAST_MARKER = P1_NEXT \<and> handle_apdu_next (G w) = (g0, None)) \<or>
         (p1 a AND NOT P1_LAST_MARKER = P1_HASH_ONLY_NEXT \<and> \<not> BAKING_APP ext \<and>
          handle_apdu_next ((G w)\<lparr>hash_only := True\<rparr>) = (g0, None))"
      and "(if ins \<noteq> INS_SIGN_UNSAFE then handle_apdu_parse ext (buff a) g0 else (g0, None)) =
        (g1, None)"
      and "(if ins \<noteq> INS_SIGN_UNSAFE then hash_message_data ext g1 else (g1, None)) = (g2, None)"
      and "message_data_length g2 + length (buff a) > sizeof_message_data ext"
    for g0 g1 g2
    using that by (rule handle_apdu_refuses_overflow)
  have accept: "message_data_length (G w') \<le> sizeof_message_data ext"
    if "handle_apdu ext ins a w = (w', out)" and "\<forall>e. out \<noteq> Throw e" for w' out
    using that by (rule handle_apdu_accepts_bound)
  have keep: "message_data_length (G (fst (handle_apdu ext ins a w))) \<le> sizeof_message_data ext"
    if "message_data_length (G w) \<le> sizeof_message_data ext"
    using that by (rule handle_apdu_keeps_bound)
  from refuse accept keep show ?thesis by blast
qed

lemma next_packet_fields:
  "p1 (next_packet b) = P1_NEXT" "buff (next_packet b) = b"
  "p1 (next_packet b) AND NOT P1_LAST_MARKER = P1_NEXT"
  "p1 (next_packet b) AND P1_LAST_MARKER = 0"
  by (simp_all add: next_packet_def P1_NEXT_def P1_LAST_MARKER_def)

lemma P1_NEXT_masks:
  "P1_NEXT AND NOT P1_LAST_MARKER = P1_NEXT" "P1_NEXT AND P1_LAST_MARKER = 0"
  by (simp_all add: P1_NEXT_def P1_LAST_MARKER_def)

lemma sample_ext_consts:
  "MAX_APDU_SIZE (sample_ext b) = 230" "sizeof_message_data (sample_ext b) = 1024"
  by (simp_all add: sample_ext_def)

lemma sample_session_fields:
  "length_bp (bip32_path_k (key sample_session)) = 1"
  "packet_index sample_session = 0"
  "message_data_length sample_session = 0"
  by (simp_all add: sample_session_def clear_data_def sample_key_of_def sample_nvram_def)

theorem message_buffer_within_capacity_witness:
  "handle_apdu (sample_ext False) INS_SIGN_UNSAFE (next_packet [1, 2, 3, 4, 5])
     (sample_machine (sample_session\<lparr>message_data_length := 1020\<rparr>)) =
     ((sample_machine (sample_session\<lparr>message_data_length := 1020\<rparr>))
        \<lparr>G := sample_session\<lparr>message_data_length := 1020, packet_index := 1\<rparr>\<rparr>,
      Throw EXC_PARSE_ERROR) \<and>
   snd (handle_apdu (sample_ext False) INS_SIGN_UNSAFE (next_packet [1, 2, 3, 4])
     (sample_machine (sample_session\<lparr>message_data_length := 1020\<rparr>))) = Return [] \<and>
   message_data_length (G (fst (handle_apdu (sample_ext False) INS_SIGN_UNSAFE (next_packet [1, 2, 3, 4])
     (sample_machine (sample_session\<lparr>message_data_length := 1020\<rparr>))))) \<le> 1024"
proof -
  let ?w = "sample_machine (sample_session\<lparr>message_data_length := 1020\<rparr>)"
  let ?g0 = "sample_session\<lparr>message_data_length := 1020, packet_index := 1\<rparr>"
  have n: "handle_apdu_next (G ?w) = (?g0, None)"
    by (simp add: handle_apdu_next_def sample_machine_def sample_session_fields)
  have r: "snd (handle_apdu (sample_ext False) INS_SIGN_UNSAFE (next_packet [1, 2, 3, 4]) ?w) = Return []"
    by (simp add: handle_apdu_def handle_apdu_body_def handle_apdu_append_def Let_def
        next_packet_fields P1_NEXT_masks sample_ext_consts P1_distinct n)
  have "handle_apdu (sample_ext False) INS_SIGN_UNSAFE (next_packet [1, 2, 3, 4, 5]) ?w =
      (?w\<lparr>G := ?g0\<rparr>, Throw EXC_PARSE_ERROR)"
    using message_buffer_within_capacity [of "next_packet [1, 2, 3, 4, 5]" "sample_ext False" ?w INS_SIGN_UNSAFE] n
    by (simp add: next_packet_fields P1_NEXT_masks sample_ext_consts)
  moreover have "message_data_length (G (fst (handle_apdu (sample_ext False) INS_SIGN_UNSAFE (next_packet [1, 2, 3, 4]) ?w))) \<le> 1024"
  proof -
    obtain w' out where h: "handle_apdu (sample_ext False) INS_SIGN_UNSAFE (next_packet [1, 2, 3, 4]) ?w = (w', out)"
      by (cases "handle_apdu (sample_ext False) INS_SIGN_UNSAFE (next_packet [1, 2, 3, 4]) ?w")
    with r have "\<forall>e. out \<noteq> Throw e" by simp
    with h message_buffer_within_capacity [of "next_packet [1, 2, 3, 4]" "sample_ext False" ?w INS_SIGN_UNSAFE]
    have "message_data_length (G w') \<le> sizeof_message_data (sample_ext False)" by blast
    with h show ?thesis by (simp add: sample_ext_consts)
  qed
  ultimately show ?thesis using r by simp
qed

subsection \<open>Packet framing\<close>

lemma body_keeps_framing:
  assumes "handle_apdu_body ext ins False b w = (w', Return r)"
  shows "packet_index (G w') = packet_index (G w) \<and> key (G w') = key (G w)"
proof -
  have parse: "packet_index (fst (handle_apdu_parse ext b g)) = packet_index g \<and>
      key (fst (handle_apdu_parse ext b g)) = key g" for g
    by (auto simp add: handle_apdu_parse_def Let_def split: sum.splits prod.splits option.splits)
  have hsh: "packet_index (fst (hash_message_data ext g)) = packet_index g \<and>
      key (fst (hash_message_data ext g)) = key g" for g
    by (auto simp add: hash_message_data_def split: prod.splits)
  have app: "packet_index (fst (handle_apdu_append ext eh b g)) = packet_index g \<and>
      key (fst (handle_apdu_append ext eh b g)) = key g" for g eh
    using hsh [of g]
    by (auto simp add: handle_apdu_append_def split: prod.splits option.splits if_splits)
  obtain g1 e1 where p: "(if ins \<noteq> INS_SIGN_UNSAFE then handle_apdu_parse ext b (G w) else (G w, None)) = (g1, e1)"
    by (cases "(if ins \<noteq> INS_SIGN_UNSAFE then handle_apdu_parse ext b (G w) else (G w, None))")
  obtain g2 e2 where a: "handle_apdu_append ext (ins \<noteq> INS_SIGN_UNSAFE) b g1 = (g2, e2)"
    by (cases "handle_apdu_append ext (ins \<noteq> INS_SIGN_UNSAFE) b g1")
  from p have k1: "packet_index g1 = packet_index (G w) \<and> key g1 = key (G w)"
    using parse [of "G w"] by (auto split: if_splits)
  from a have k2: "packet_index g2 = packet_index g1 \<and> key g2 = key g1"
    using app [of "ins \<noteq> INS_SIGN_UNSAFE" g1] by simp
  from assms p have e1: "e1 = None"
    by (cases e1) (auto simp add: handle_apdu_body_def Let_def)
  from assms p a e1 have e2: "e2 = None"
    by (cases e2) (auto simp add: handle_apdu_body_def Let_def)
  from assms p a e1 e2 have "w' = w\<lparr>G := g2\<rparr>"
    by (auto simp add: handle_apdu_body_def Let_def)
  with k1 k2 show ?thesis by simp
qed

lemma next_packet_accepted:
  assumes "p1 a = P1_NEXT" and "handle_apdu ext ins a w = (w', Return r)"
  shows "unat (packet_index (G w')) = Suc (unat (packet_index (G w))) \<and>
         key (G w') = key (G w) \<and>
         length_bp (bip32_path_k (key (G w))) \<noteq> 0"
proof -
  from assms(1) have k: "p1 a AND NOT P1_LAST_MARKER = P1_NEXT" "(p1 a AND P1_LAST_MARKER \<noteq> 0) = False"
    by (simp_all add: P1_NEXT_def P1_LAST_MARKER_def)
  from assms have sz: "\<not> length (buff a) > MAX_APDU_SIZE ext"
    by (auto simp add: handle_apdu_def)
  obtain g e where n: "handle_apdu_next (G w) = (g, e)"
    by (cases "handle_apdu_next (G w)")
  with assms sz k have e: "e = None"
    by (cases e) (auto simp add: handle_apdu_def Let_def P1_distinct)
  with assms sz k n have b: "handle_apdu_body ext ins False (buff a) (w\<lparr>G := g\<rparr>) = (w', Return r)"
    by (auto simp add: handle_apdu_def Let_def P1_distinct)
  from n e have g: "length_bp (bip32_path_k (key (G w))) \<noteq> 0" "\<not> packet_index (G w) \<ge> 0xFF"
    "g = (G w)\<lparr>packet_index := packet_index (G w) + 1\<rparr>"
    by (auto simp add: handle_apdu_next_def split: if_splits)
  from g(2) have "unat (packet_index (G w)) < 255"
    by (simp add: word_le_nat_alt not_le)
  then have "unat (packet_index (G w) + 1) = Suc (unat (packet_index (G w)))"
    by (simp add: unat_word_ariths)
  with body_keeps_framing [OF b] g show ?thesis by simp
qed

lemma handle_apdus_Cons:
  "as \<noteq> [] \<Longrightarrow>
   handle_apdus ext ins (a # as) w =
     (case handle_apdu ext ins a w of
        (w', Return r) \<Rightarrow> handle_apdus ext ins as w'
      | (w', out) \<Rightarrow> (w', out))"
  by (cases as) simp_all

lemma handle_apdus_snoc:
  "as \<noteq> [] \<Longrightarrow> handle_apdus ext ins as w = (w1, Return r) \<Longrightarrow>
   handle_apdus ext ins (as @ [b]) w = handle_apdu ext ins b w1"
proof (induction as arbitrary: w)
  case Nil
  then show ?case by simp
next
  case (Cons a as)
  show ?case
  proof (cases "as = []")
    case True
    with Cons.prems show ?thesis by simp
  next
    case False
    obtain w2 out where h: "handle_apdu ext ins a w = (w2, out)"
      by (cases "handle_apdu ext ins a w")
    from False Cons.prems h obtain x where out: "out = Return x"
      by (cases out) (simp_all add: handle_apdus_Cons)
    with False Cons.prems h have "handle_apdus ext ins as w2 = (w1, Return r)"
      by (simp add: handle_apdus_Cons)
    with Cons.IH [OF False] have "handle_apdus ext ins (as @ [b]) w2 = handle_apdu ext ins b w1" .
    with h out show ?thesis
      by (simp add: handle_apdus_Cons [of "as @ [b]"])
  qed
qed

lemma next_packets_accepted:
  "as \<noteq> [] \<Longrightarrow> \<forall>a\<in>set as. p1 a = P1_NEXT \<Longrightarrow> handle_apdus ext ins as w = (w', Return r) \<Longrightarrow>
   unat (packet_index (G w')) = unat (packet_index (G w)) + length as \<and>
   key (G w') = key (G w) \<and>
   length_bp (bip32_path_k (key (G w))) \<noteq> 0"
proof (induction as arbitrary: w)
  case Nil
  then show ?case by simp
next
  case (Cons a as)
  show ?case
  proof (cases "as = []")
    case True
    with Cons.prems show ?thesis
      using next_packet_accepted [of a ext ins w w' r] by simp
  next
    case False
    obtain w2 out where h: "handle_apdu ext ins a w = (w2, out)"
      by (cases "handle_apdu ext ins a w")
    from False Cons.prems h obtain x where out: "out = Return x"
      by (cases out) (simp_all add: handle_apdus_Cons)
    with h Cons.prems have s: "unat (packet_index (G w2)) = Suc (unat (packet_index (G w))) \<and>
         key (G w2) = key (G w) \<and> length_bp (bip32_path_k (key (G w))) \<noteq> 0"
      using next_packet_accepted [of a ext ins w w2 x] by simp
    from out False Cons.prems h have "handle_apdus ext ins as w2 = (w', Return r)"
      by (simp add: handle_apdus_Cons)
    with Cons.IH [OF False, of w2] Cons.prems
    have "unat (packet_index (G w')) = unat (packet_index (G w2)) + length as \<and>
        key (G w') = key (G w2)" by simp
    with s show ?thesis by simp
  qed
qed

lemma next_before_first:
  assumes "length_bp (bip32_path_k (key (G w))) = 0"
    and "p1 a AND NOT P1_LAST_MARKER = P1_NEXT"
  shows "handle_apdu ext ins a w = (w, Throw EXC_WRONG_LENGTH_FOR_INS)"
  using assms
  by (simp add: handle_apdu_def Let_def P1_distinct handle_apdu_next_def)

lemma packet_256_refused:
  assumes "length as = 255" and "\<forall>a\<in>set as. p1 a = P1_NEXT"
    and "p1 b AND NOT P1_LAST_MARKER = P1_NEXT" and "length (buff b) \<le> MAX_APDU_SIZE ext"
    and "packet_index (G w) = 0"
    and "handle_apdus ext ins as w = (w1, Return r)"
  shows "handle_apdus ext ins (as @ [b]) w = (w1, Throw EXC_PARSE_ERROR)"
proof -
  from assms(1) have ne: "as \<noteq> []" by auto
  from next_packets_accepted [OF ne assms(2) assms(6)] assms(1,5)
  have "unat (packet_index (G w1)) = 255" and p: "length_bp (bip32_path_k (key (G w1))) \<noteq> 0"
    by simp_all
  then have "packet_index (G w1) = 0xFF"
    by (simp add: word_unat_eq_iff)
  with p assms(3,4) have "handle_apdu ext ins b w1 = (w1, Throw EXC_PARSE_ERROR)"
    by (simp add: handle_apdu_def Let_def P1_distinct handle_apdu_next_def)
  with handle_apdus_snoc [OF ne assms(6)] show ?thesis by simp
qed

lemma empty_packet_accepted:
  assumes "unat k < 255"
  shows "handle_apdu (sample_ext False) INS_SIGN_UNSAFE (next_packet [])
           (sample_machine (sample_session\<lparr>packet_index := k\<rparr>)) =
         (sample_machine (sample_session\<lparr>packet_index := k + 1\<rparr>), Return [])"
proof -
  from assms have "\<not> k \<ge> 0xFF"
    by (simp add: word_le_nat_alt)
  then have n: "handle_apdu_next (sample_session\<lparr>packet_index := k\<rparr>) =
      (sample_session\<lparr>packet_index := k + 1\<rparr>, None)"
    by (simp add: handle_apdu_next_def sample_session_fields)
  show ?thesis
    by (simp add: handle_apdu_def handle_apdu_body_def handle_apdu_append_def Let_def
        next_packet_fields P1_NEXT_masks sample_ext_consts P1_distinct n sample_machine_def
        sample_session_fields memmove_bytes_def)
qed

lemma empty_packets_accepted:
  "unat k + Suc n \<le> 255 \<Longrightarrow>
   handle_apdus (sample_ext False) INS_SIGN_UNSAFE (replicate (Suc n) (next_packet []))
     (sample_machine (sample_session\<lparr>packet_index := k\<rparr>)) =
   (sample_machine (sample_session\<lparr>packet_index := k + of_nat (Suc n)\<rparr>), Return [])"
proof (induction n arbitrary: k)
  case 0
  then show ?case using empty_packet_accepted [of k] by simp
next
  case (Suc n)
  from Suc.prems have k: "unat k < 255" by simp
  then have "unat (k + 1) = Suc (unat k)"
    by (simp add: unat_word_ariths)
  with Suc.prems have "unat (k + 1) + Suc n \<le> 255" by simp
  from Suc.IH [OF this] empty_packet_accepted [OF k] show ?case
    by (simp add: handle_apdus_Cons add.assoc)
qed

text \<open>
  C4, as amended. A packet of kind \<^verbatim>\<open>P1_NEXT\<close> that arrives while the session path is
  still empty makes \<^verbatim>\<open>handle_apdu\<close> throw \<^verbatim>\<open>EXC_WRONG_LENGTH_FOR_INS\<close> and leaves the
  machine as it was. From a packet counter of zero, when 255 consecutive \<^verbatim>\<open>P1_NEXT\<close>
  packets have been accepted, the 256th is refused with \<^verbatim>\<open>EXC_PARSE_ERROR\<close>: the counter
  does not go beyond 255.
\<close>

theorem packet_framing:
  "(length_bp (bip32_path_k (key (G w))) = 0 \<and> p1 a AND NOT P1_LAST_MARKER = P1_NEXT \<longrightarrow>
      handle_apdu ext ins a w = (w, Throw EXC_WRONG_LENGTH_FOR_INS)) \<and>
   (\<forall>w1 r.
      length as = 255 \<and> (\<forall>x\<in>set as. p1 x = P1_NEXT) \<and>
      p1 b AND NOT P1_LAST_MARKER = P1_NEXT \<and> length (buff b) \<le> MAX_APDU_SIZE ext \<and>
      packet_index (G w) = 0 \<and>
      handle_apdus ext ins as w = (w1, Return r) \<longrightarrow>
      handle_apdus ext ins (as @ [b]) w = (w1, Throw EXC_PARSE_ERROR))"
  using next_before_first [of w a ext ins] packet_256_refused [of as b ext w ins]
  by blast

theorem packet_framing_witness:
  "handle_apdu (sample_ext True) INS_SIGN (next_packet [3])
     (sample_machine (clear_data (sample_ext True))) =
     (sample_machine (clear_data (sample_ext True)), Throw EXC_WRONG_LENGTH_FOR_INS) \<and>
   handle_apdus (sample_ext False) INS_SIGN_UNSAFE
     (replicate 255 (next_packet []) @ [next_packet []]) (sample_machine sample_session) =
     (sample_machine (sample_session\<lparr>packet_index := 255\<rparr>), Throw EXC_PARSE_ERROR)"
proof -
  have one: "handle_apdu (sample_ext True) INS_SIGN (next_packet [3])
     (sample_machine (clear_data (sample_ext True))) =
     (sample_machine (clear_data (sample_ext True)), Throw EXC_WRONG_LENGTH_FOR_INS)"
    using packet_framing [of "sample_machine (clear_data (sample_ext True))" "next_packet [3]"
        "sample_ext True" INS_SIGN "[]" "next_packet []"]
    by (simp add: sample_machine_def clear_data_def next_packet_fields P1_NEXT_masks)
  have run: "handle_apdus (sample_ext False) INS_SIGN_UNSAFE (replicate 255 (next_packet []))
      (sample_machine sample_session) =
      (sample_machine (sample_session\<lparr>packet_index := 255\<rparr>), Return [])"
  proof -
    have "sample_session\<lparr>packet_index := 0\<rparr> = sample_session"
      by (simp add: sample_session_def clear_data_def)
    with empty_packets_accepted [of 0 254] show ?thesis by simp
  qed
  have two: "handle_apdus (sample_ext False) INS_SIGN_UNSAFE
     (replicate 255 (next_packet []) @ [next_packet []]) (sample_machine sample_session) =
     (sample_machine (sample_session\<lparr>packet_index := 255\<rparr>), Throw EXC_PARSE_ERROR)"
    using packet_framing [of "sample_machine sample_session" "next_packet []" "sample_ext False"
        INS_SIGN_UNSAFE "replicate 255 (next_packet [])" "next_packet []"] run
    by (simp add: next_packet_fields P1_NEXT_masks sample_ext_consts sample_machine_def
        sample_session_fields)
  from one two show ?thesis by simp
qed

text \<open>
  C4 as stated fails: a \<^verbatim>\<open>P1_NEXT\<close> packet on a cleared session does not end in
  \<^verbatim>\<open>EXC_PARSE_ERROR\<close>.
\<close>

theorem next_before_first_not_parse_error:
  "length_bp (bip32_path_k (key (G (sample_machine (clear_data (sample_ext True)))))) = 0 \<and>
   p1 (next_packet [3]) = P1_NEXT \<and>
   snd (handle_apdu (sample_ext True) INS_SIGN (next_packet [3])
          (sample_machine (clear_data (sample_ext True)))) \<noteq> Throw EXC_PARSE_ERROR"
  by (simp add: next_before_first sample_machine_def clear_data_def next_packet_fields
      P1_NEXT_masks)

subsection \<open>Self-delegation in the baking build\<close>

text \<open>
  C3, as amended. In the baking build \<^verbatim>\<open>baking_sign_complete\<close> on an
  \<open>MAGIC_BYTE_UNSAFE_OP\<close> payload signs nothing itself and leaves the machine as it
  was. It shows the register-as-delegate prompt, the only way on to a signature, exactly
  when the parse result is valid, the session key equals the authorized baking key and
  parsed source and destination both equal the signing identity. It throws
  \<^verbatim>\<open>EXC_SECURITY\<close> exactly when the parse result is valid and one of the other conditions
  fails, and \<^verbatim>\<open>EXC_PARSE_ERROR\<close> exactly when the parse result is invalid.
\<close>

theorem baking_sign_complete_unsafe_op:
  assumes "magic_byte (G w) = MAGIC_BYTE_UNSAFE_OP"
  shows
    "fst (baking_sign_complete ext send_hash w) = w \<and>
     ((\<exists>ok_cb cxl_cb. snd (baking_sign_complete ext send_hash w) = UiPrompt PROMPT_register_delegate ok_cb cxl_cb) \<longleftrightarrow>
        is_valid (maybe_ops (G w)) \<and>
        bip32_path_with_curve_eq (key (G w)) (baking_key ext (N_data w)) \<and>
        source (operation (v (maybe_ops (G w)))) = signing (v (maybe_ops (G w))) \<and>
        destination (operation (v (maybe_ops (G w)))) = signing (v (maybe_ops (G w)))) \<and>
     (snd (baking_sign_complete ext send_hash w) = Throw EXC_SECURITY \<longleftrightarrow>
        is_valid (maybe_ops (G w)) \<and>
        \<not> (bip32_path_with_curve_eq (key (G w)) (baking_key ext (N_data w)) \<and>
           source (operation (v (maybe_ops (G w)))) = signing (v (maybe_ops (G w))) \<and>
           destination (operation (v (maybe_ops (G w)))) = signing (v (maybe_ops (G w))))) \<and>
     (snd (baking_sign_complete ext send_hash w) = Throw EXC_PARSE_ERROR \<longleftrightarrow>
        \<not> is_valid (maybe_ops (G w)))"
  using assms
  by (auto simp add: baking_sign_complete_def prompt_register_delegate_def Let_def)

lemma sample_operation_fields:
  "magic_byte (G (sample_operation b s d)) = MAGIC_BYTE_UNSAFE_OP"
  "is_valid (maybe_ops (G (sample_operation b s d))) = b"
  "source (operation (v (maybe_ops (G (sample_operation b s d))))) = s"
  "destination (operation (v (maybe_ops (G (sample_operation b s d))))) = d"
  "signing (v (maybe_ops (G (sample_operation b s d)))) = 5"
  "key (G (sample_operation b s d)) = sample_key_of sample_nvram"
  "N_data (sample_operation b s d) = sample_nvram"
  by (simp_all add: sample_operation_def sample_session_def)

lemma sample_ext_fields:
  "baking_key (sample_ext b) = sample_key_of"
  "BAKING_APP (sample_ext b) = b"
  by (simp_all add: sample_ext_def)

lemma sample_key_eq:
  "bip32_path_with_curve_eq (sample_key_of nv) (sample_key_of nv)"
  by (simp add: bip32_path_with_curve_eq_def)

theorem baking_sign_complete_unsafe_op_witness:
  "snd (baking_sign_complete (sample_ext True) False (sample_operation True 5 5)) =
     UiPrompt PROMPT_register_delegate CB_sign_without_hash_ok CB_sign_reject \<and>
   snd (baking_sign_complete (sample_ext True) False (sample_operation True 5 6)) =
     Throw EXC_SECURITY \<and>
   snd (baking_sign_complete (sample_ext True) False (sample_operation False 5 5)) =
     Throw EXC_PARSE_ERROR"
proof -
  have a: "snd (baking_sign_complete (sample_ext True) False (sample_operation True 5 6)) =
     Throw EXC_SECURITY"
    using baking_sign_complete_unsafe_op [of "sample_operation True 5 6" "sample_ext True" False]
    by (simp add: sample_operation_fields sample_ext_fields sample_key_eq)
  have b: "snd (baking_sign_complete (sample_ext True) False (sample_operation False 5 5)) =
     Throw EXC_PARSE_ERROR"
    using baking_sign_complete_unsafe_op [of "sample_operation False 5 5" "sample_ext True" False]
    by (simp add: sample_operation_fields sample_ext_fields sample_key_eq)
  have c: "snd (baking_sign_complete (sample_ext True) False (sample_operation True 5 5)) =
     UiPrompt PROMPT_register_delegate CB_sign_without_hash_ok CB_sign_reject"
    by (simp add: baking_sign_complete_def prompt_register_delegate_def Let_def
        sample_operation_fields sample_ext_fields sample_key_eq)
  from a b c show ?thesis by simp
qed

text \<open>
  C3 as stated fails: an \<open>MAGIC_BYTE_UNSAFE_OP\<close> payload whose parse result is invalid
  (here with source and destination different) does not end in \<^verbatim>\<open>EXC_SECURITY\<close>.
\<close>

theorem unsafe_op_invalid_parse_not_security:
  "magic_byte (G (sample_operation False 5 6)) = MAGIC_BYTE_UNSAFE_OP \<and>
   \<not> is_valid (maybe_ops (G (sample_operation False 5 6))) \<and>
   source (operation (v (maybe_ops (G (sample_operation False 5 6))))) \<noteq>
     destination (operation (v (maybe_ops (G (sample_operation False 5 6))))) \<and>
   snd (baking_sign_complete (sample_ext True) False (sample_operation False 5 6)) \<noteq>
     Throw EXC_SECURITY"
  by (simp add: baking_sign_complete_def Let_def sample_operation_fields)

subsection \<open>Validation, persistence, signature\<close>

lemma write_highest_level_log:
  "events (write_highest_level lvl e w) =
     events w @
       (if is_valid_level lvl
        then [NvmWrite ((N_data w)\<lparr>highest_level := lvl, had_endorsement := e\<rparr>),
              ChangeIdleDisplay lvl]
        else [])"
  by (simp add: write_highest_level_def nvm_write_def change_idle_display_def Let_def)

lemma update_high_water_mark_log:
  "events (update_high_water_mark gmb d n w) =
     events w @
       (case parse_baking_data gmb d n of
          None \<Rightarrow> []
        | Some b \<Rightarrow>
            if is_valid_level (level b)
            then [NvmWrite ((N_data w)\<lparr>highest_level := level b,
                                       had_endorsement := is_endorsement b\<rparr>),
                  ChangeIdleDisplay (level b)]
            else [])"
  by (simp add: update_high_water_mark_def write_highest_level_log split: option.splits)

lemma perform_signature_main_log:
  "events (fst (perform_signature_main mext resp ctx mw)) =
     events (update_high_water_mark (get_magic_byte_m mext) (data ctx) (datalen ctx) mw) @
       (if curve_oc ctx = CX_CURVE_Ed25519 \<or> curve_oc ctx = CX_CURVE_SECP256K1
        then [SignCall (curve_oc ctx) (take (unat (path_length_oc ctx)) (bip32_path_oc ctx))
                (blake2b mext (take (datalen ctx) (data ctx)) HASH_SIZE)]
        else []) \<and>
   N_data (fst (perform_signature_main mext resp ctx mw)) =
     N_data (update_high_water_mark (get_magic_byte_m mext) (data ctx) (datalen ctx) mw)"
  by (cases "curve_oc ctx")
    (simp_all add: perform_signature_main_def Let_def split: prod.splits)

lemma perform_signature_mark_fails:
  "BAKING_APP ext \<Longrightarrow>
   write_high_water_mark ext (parsed_baking_data (G w)) (world.truncate w) = Inl e \<Longrightarrow>
   perform_signature ext oh sh w = (w, Throw e)"
  by (simp add: perform_signature_def)

lemma perform_signature_log:
  "BAKING_APP ext \<Longrightarrow>
   write_high_water_mark ext (parsed_baking_data (G w)) (world.truncate w) = Inr w1 \<Longrightarrow>
   sign ext (key (G w))
     (if oh then final_hash (G w) else take (message_data_length (G w)) (message_data (G w))) = Inr s \<Longrightarrow>
   events (fst (perform_signature ext oh sh w)) =
     events w1 @
       [SignCall (derivation_type (key (G w)))
          (take (unat (length_bp (bip32_path_k (key (G w))))) (components (bip32_path_k (key (G w)))))
          (if oh then final_hash (G w) else take (message_data_length (G w)) (message_data (G w)))] \<and>
   N_data (fst (perform_signature ext oh sh w)) = N_data w1"
  by (simp add: perform_signature_def perform_signature_sign_def Let_def)

lemma baking_sign_complete_guard_first:
  "magic_byte (G w) = MAGIC_BYTE_BLOCK \<or> magic_byte (G w) = MAGIC_BYTE_BAKING_OP \<Longrightarrow>
   baking_sign_complete ext sh w =
     (case guard_baking_authorized_key ext (parsed_baking_data (G w)) (key (G w)) (N_data w) of
        Some e \<Rightarrow> (w, Throw e)
      | None \<Rightarrow> perform_signature ext True sh w)"
  by (auto simp add: baking_sign_complete_def Let_def)

text \<open>
  C2, as amended. In both signing flows the high-water mark is persisted before the
  signature is produced. In \<^verbatim>\<open>main.c\<close> the effects of \<^verbatim>\<open>perform_signature\<close> are, in this
  order, the write of the level and kind of a block or endorsement with a valid level,
  the refresh of the display, and at most one signature; the persistent record is the one
  \<^verbatim>\<open>update_high_water_mark\<close> left. In the baking build of \<^verbatim>\<open>apdu_sign.c\<close> the guard runs first
  and a refusal ends the command; \<^verbatim>\<open>perform_signature\<close> then calls
  \<^verbatim>\<open>write_high_water_mark\<close>; if that throws nothing is signed, and otherwise the signature
  is the one effect that follows what the update did.
\<close>

theorem persistence_precedes_signature:
  "(events (fst (perform_signature_main mext resp ctx mw)) =
      events mw @
        (case parse_baking_data (get_magic_byte_m mext) (data ctx) (datalen ctx) of
           None \<Rightarrow> []
         | Some b \<Rightarrow>
             if is_valid_level (level b)
             then [NvmWrite ((N_data mw)\<lparr>highest_level := level b,
                                         had_endorsement := is_endorsement b\<rparr>),
                   ChangeIdleDisplay (level b)]
             else []) @
        (if curve_oc ctx = CX_CURVE_Ed25519 \<or> curve_oc ctx = CX_CURVE_SECP256K1
         then [SignCall (curve_oc ctx) (take (unat (path_length_oc ctx)) (bip32_path_oc ctx))
                 (blake2b mext (take (datalen ctx) (data ctx)) HASH_SIZE)]
         else []) \<and>
    N_data (fst (perform_signature_main mext resp ctx mw)) =
      N_data (update_high_water_mark (get_magic_byte_m mext) (data ctx) (datalen ctx) mw)) \<and>
   (BAKING_APP ext \<longrightarrow>
      (magic_byte (G w) = MAGIC_BYTE_BLOCK \<or> magic_byte (G w) = MAGIC_BYTE_BAKING_OP \<longrightarrow>
         baking_sign_complete ext sh w =
           (case guard_baking_authorized_key ext (parsed_baking_data (G w)) (key (G w)) (N_data w) of
              Some e \<Rightarrow> (w, Throw e)
            | None \<Rightarrow> perform_signature ext True sh w)) \<and>
      (\<forall>e. write_high_water_mark ext (parsed_baking_data (G w)) (world.truncate w) = Inl e \<longrightarrow>
         perform_signature ext oh sh w = (w, Throw e)) \<and>
      (\<forall>w1 s.
         write_high_water_mark ext (parsed_baking_data (G w)) (world.truncate w) = Inr w1 \<and>
         sign ext (key (G w))
           (if oh then final_hash (G w)
            else take (message_data_length (G w)) (message_data (G w))) = Inr s \<longrightarrow>
         events (fst (perform_signature ext oh sh w)) =
           events w1 @
             [SignCall (derivation_type (key (G w)))
                (take (unat (length_bp (bip32_path_k (key (G w)))))
                   (components (bip32_path_k (key (G w)))))
                (if oh then final_hash (G w)
                 else take (message_data_length (G w)) (message_data (G w)))] \<and>
         N_data (fst (perform_signature ext oh sh w)) = N_data w1))"
proof -
  have main: "events (fst (perform_signature_main mext resp ctx mw)) =
      events mw @
        (case parse_baking_data (get_magic_byte_m mext) (data ctx) (datalen ctx) of
           None \<Rightarrow> []
         | Some b \<Rightarrow>
             if is_valid_level (level b)
             then [NvmWrite ((N_data mw)\<lparr>highest_level := level b,
                                         had_endorsement := is_endorsement b\<rparr>),
                   ChangeIdleDisplay (level b)]
             else []) @
        (if curve_oc ctx = CX_CURVE_Ed25519 \<or> curve_oc ctx = CX_CURVE_SECP256K1
         then [SignCall (curve_oc ctx) (take (unat (path_length_oc ctx)) (bip32_path_oc ctx))
                 (blake2b mext (take (datalen ctx) (data ctx)) HASH_SIZE)]
         else [])"
    using perform_signature_main_log [of mext resp ctx mw]
    by (simp only: update_high_water_mark_log append_assoc)
  show ?thesis
    using main perform_signature_main_log [of mext resp ctx mw]
      perform_signature_mark_fails [of ext w _ oh sh]
      perform_signature_log [of ext w _ oh _ sh]
      baking_sign_complete_guard_first [of w ext sh]
    by blast
qed

lemma sample_block_parsed:
  "parse_baking_data sample_get_magic_byte (sample_block @ replicate 6 0) 10 =
     Some \<lparr>is_endorsement = False, level = 11\<rparr>"
  by (simp add: parse_baking_data_def sample_get_magic_byte_def sample_block_def sizeof_block_def
      READ_UNALIGNED_BIG_ENDIAN_def word_rcat_def)

lemma valid_11: "is_valid_level 11"
  by (simp add: is_valid_level_def)


lemma sample_main_log:
  "events (fst (perform_signature_main sample_main_ext [] (sample_context c)
      (sample_world :: cx_curve_t world))) =
     [NvmWrite (sample_nvram\<lparr>highest_level := 11, had_endorsement := False\<rparr>),
      ChangeIdleDisplay 11] @
     (if c = CX_CURVE_Ed25519 \<or> c = CX_CURVE_SECP256K1
      then [SignCall c [7] sample_block] else [])"
  by (simp add: perform_signature_main_log update_high_water_mark_log sample_main_ext_def
      sample_context_def sample_block_parsed valid_11 sample_world_def HASH_SIZE_def)
    (simp add: sample_block_def)

lemma sample_main_mark:
  "N_data (fst (perform_signature_main sample_main_ext [] (sample_context c)
      (sample_world :: cx_curve_t world))) =
     sample_nvram\<lparr>highest_level := 11, had_endorsement := False\<rparr>"
  by (simp add: perform_signature_main_log update_high_water_mark_def write_highest_level_def
      nvm_write_def change_idle_display_def Let_def sample_main_ext_def
      sample_context_def sample_block_parsed valid_11 sample_world_def)

lemma sample_machine_fields:
  "G (sample_machine g) = g" "N_data (sample_machine g) = sample_nvram"
  "events (sample_machine g) = []"
  by (simp_all add: sample_machine_def)

lemma sample_mark_written:
  "write_high_water_mark (sample_ext True)
     (parsed_baking_data (G (sample_machine sample_block_session)))
     (world.truncate (sample_machine sample_block_session)) =
   Inr \<lparr>N_data = sample_nvram\<lparr>highest_level := 11, had_endorsement := False\<rparr>,
        events = [NvmWrite (sample_nvram\<lparr>highest_level := 11, had_endorsement := False\<rparr>),
                  ChangeIdleDisplay 11]\<rparr>"
  by (simp add: sample_ext_def sample_block_session_def sample_machine_def world.truncate_def
      write_highest_level_def valid_11 nvm_write_def change_idle_display_def Let_def)

lemma sample_world_level: "highest_level (N_data (sample_world :: 'k world)) = 10"
  by (simp add: sample_world_def sample_nvram_def)

lemma sample_block_session_fields:
  "final_hash sample_block_session = [1, 2, 3]"
  "derivation_type (key sample_block_session) = CX_CURVE_SECP256K1"
  "length_bp (bip32_path_k (key sample_block_session)) = 1"
  "components (bip32_path_k (key sample_block_session)) = [7, 0, 0]"
  "magic_byte sample_block_session = MAGIC_BYTE_BLOCK"
  by (simp_all add: sample_block_session_def sample_session_def sample_key_of_def sample_nvram_def)

lemma sample_sign_log:
  "events (fst (perform_signature (sample_ext True) True False (sample_machine sample_block_session))) =
     [NvmWrite (sample_nvram\<lparr>highest_level := 11, had_endorsement := False\<rparr>),
      ChangeIdleDisplay 11, SignCall CX_CURVE_SECP256K1 [7] [1, 2, 3]]"
proof -
  have s: "sign (sample_ext True) k m = Inr m" for k m
    by (simp add: sample_ext_def)
  from perform_signature_log [OF _ sample_mark_written, of True "[1, 2, 3]" False] s
  show ?thesis
    by (simp add: sample_ext_fields sample_machine_fields sample_block_session_fields)
qed

theorem persistence_precedes_signature_witness:
  "events (fst (perform_signature_main sample_main_ext [] (sample_context CX_CURVE_SECP256K1)
      (sample_world :: cx_curve_t world))) =
     [NvmWrite (sample_nvram\<lparr>highest_level := 11, had_endorsement := False\<rparr>),
      ChangeIdleDisplay 11, SignCall CX_CURVE_SECP256K1 [7] sample_block] \<and>
   events (fst (perform_signature (sample_ext True) True False
      (sample_machine sample_block_session))) =
     [NvmWrite (sample_nvram\<lparr>highest_level := 11, had_endorsement := False\<rparr>),
      ChangeIdleDisplay 11, SignCall CX_CURVE_SECP256K1 [7] [1, 2, 3]]"
proof -
  have s: "sign (sample_ext True) k m = Inr m" for k m
    by (simp add: sample_ext_def)
  have p: "parse_baking_data (get_magic_byte_m sample_main_ext)
      (data (sample_context CX_CURVE_SECP256K1)) (datalen (sample_context CX_CURVE_SECP256K1)) =
      Some \<lparr>is_endorsement = False, level = 11\<rparr>"
    by (simp add: sample_main_ext_def sample_context_def sample_block_parsed)
  have h: "blake2b sample_main_ext (take (datalen (sample_context CX_CURVE_SECP256K1))
      (data (sample_context CX_CURVE_SECP256K1))) HASH_SIZE = sample_block"
    by (simp add: sample_main_ext_def sample_context_def HASH_SIZE_def sample_block_def)
  note t = persistence_precedes_signature [of sample_main_ext "[]"
      "sample_context CX_CURVE_SECP256K1" "sample_world :: cx_curve_t world" "sample_ext True"
      "sample_machine sample_block_session" False True]
  from t p h have one: "events (fst (perform_signature_main sample_main_ext []
      (sample_context CX_CURVE_SECP256K1) (sample_world :: cx_curve_t world))) =
     [NvmWrite (sample_nvram\<lparr>highest_level := 11, had_endorsement := False\<rparr>),
      ChangeIdleDisplay 11, SignCall CX_CURVE_SECP256K1 [7] sample_block]"
    by (simp add: sample_context_def valid_11 sample_world_def)
  from t sample_mark_written s have two: "events (fst (perform_signature (sample_ext True) True False
      (sample_machine sample_block_session))) =
     [NvmWrite (sample_nvram\<lparr>highest_level := 11, had_endorsement := False\<rparr>),
      ChangeIdleDisplay 11, SignCall CX_CURVE_SECP256K1 [7] [1, 2, 3]]"
    by (simp add: sample_ext_fields sample_machine_fields sample_block_session_fields)
  from one two show ?thesis by simp
qed

text \<open>
  C2 as stated fails: signing a block at level 11 over a recorded level 10 writes the
  mark before the signature is produced, in \<^verbatim>\<open>main.c\<close> and in \<^verbatim>\<open>apdu_sign.c\<close>; and on
  the curve \<^verbatim>\<open>main.c\<close> cannot sign with, the mark has moved to 11 although no signature
  was produced.
\<close>

theorem mark_written_before_signature:
  "\<not> signed_before_written
       (events (fst (perform_signature_main sample_main_ext [] (sample_context CX_CURVE_Ed25519)
          (sample_world :: cx_curve_t world)))) \<and>
   \<not> signed_before_written
       (events (fst (perform_signature (sample_ext True) True False
          (sample_machine sample_block_session)))) \<and>
   highest_level (N_data (sample_world :: cx_curve_t world)) = 10 \<and>
   highest_level
     (N_data (fst (perform_signature_main sample_main_ext [] (sample_context CX_CURVE_SECP256R1)
        (sample_world :: cx_curve_t world)))) = 11 \<and>
   \<not> has_signature
       (events (fst (perform_signature_main sample_main_ext [] (sample_context CX_CURVE_SECP256R1)
          (sample_world :: cx_curve_t world))))"
  by (simp add: sample_main_log sample_main_mark sample_sign_log sample_world_level)

lemma ins_sign_buffer_bounded:
  "(p1' AND NOT P1_LAST_MARKER = P1_NEXT \<and> p2 \<le> 2 \<and>
      datalen ctx + length d > TEZOS_BUFSIZE \<longrightarrow>
      ins_sign mext p1' p2 d ctx mw = (mw, ctx, Raised 0x6C00)) \<and>
   (datalen ctx \<le> TEZOS_BUFSIZE \<longrightarrow>
      datalen (fst (snd (ins_sign mext p1' p2 d ctx mw))) \<le> TEZOS_BUFSIZE)"
proof -
  have keep: "datalen (fst (snd (perform_signature_main mext r c mw))) = datalen c" for r c
    by (cases "curve_oc c") (simp_all add: perform_signature_main_def Let_def split: prod.splits)
  show ?thesis
    by (auto simp add: ins_sign_def Let_def P1_distinct keep not_le
        split: sum.splits prod.splits magic_byte.splits)
qed

subsection \<open>The incremental hasher\<close>

lemma absorbed_init:
  "absorbed P st A \<Longrightarrow>
   absorbed P (conditional_init_hash_state P st) A \<and> initialized (conditional_init_hash_state P st)"
  by (auto simp add: absorbed_def conditional_init_hash_state_def)

lemma absorbed_update:
  assumes "\<forall>h x y. b2b_update P (b2b_update P h x) y = b2b_update P h (x @ y)"
    and "absorbed P st A" and "initialized st"
  shows "absorbed P (st\<lparr>state := b2b_update P (state st) B\<rparr>) (A @ B) \<and>
         b2b_update P (state st) B = b2b_update P (b2b_init P SIGN_HASH_SIZE) (A @ B)"
  using assms by (auto simp add: absorbed_def)

lemma loop_absorbs:
  "\<forall>h x y. b2b_update P (b2b_update P h x) y = b2b_update P h (x @ y) \<Longrightarrow>
   absorbed P st A \<Longrightarrow> cur + len \<le> length out \<Longrightarrow> length out \<le> out_size \<Longrightarrow>
    \<exists>k st'. blake2b_incremental_loop P out out_size cur len st = (None, cur + k, len - k, st') \<and>
      k \<le> len \<and> len - k \<le> B2B_BLOCKBYTES \<and> (len \<le> B2B_BLOCKBYTES \<longrightarrow> k = 0 \<and> st' = st) \<and>
      absorbed P st' (A @ take k (drop cur out))"
proof (induction P out out_size cur len st arbitrary: A rule: blake2b_incremental_loop.induct)
  case (1 P out out_size current out_length st)
  show ?case
  proof (cases "out_length > B2B_BLOCKBYTES")
    case False
    then show ?thesis
      using "1.prems"
      by (simp add: blake2b_incremental_loop.simps [of P out out_size current out_length st])
  next
    case True
    with "1.prems" have ok: "\<not> current > out_size" by (simp add: B2B_BLOCKBYTES_def)
    let ?st1 = "conditional_init_hash_state P st"
    let ?block = "take B2B_BLOCKBYTES (drop current out)"
    let ?st2 = "?st1\<lparr>state := b2b_update P (state ?st1) ?block\<rparr>"
    from absorbed_init [OF "1.prems"(2)] have a1: "absorbed P ?st1 A" "initialized ?st1" by simp_all
    from absorbed_update [OF "1.prems"(1) a1, of ?block] have a2: "absorbed P ?st2 (A @ ?block)"
      by (rule conjunct1)
    from True "1.prems" have room: "(current + B2B_BLOCKBYTES) + (out_length - B2B_BLOCKBYTES) \<le> length out"
      by simp
    from "1.IH" [OF True ok refl refl "1.prems"(1) a2 room "1.prems"(4)]
    obtain k st' where r: "blake2b_incremental_loop P out out_size (current + B2B_BLOCKBYTES)
          (out_length - B2B_BLOCKBYTES) ?st2 =
          (None, current + B2B_BLOCKBYTES + k, out_length - B2B_BLOCKBYTES - k, st')"
      and k: "k \<le> out_length - B2B_BLOCKBYTES" "out_length - B2B_BLOCKBYTES - k \<le> B2B_BLOCKBYTES"
      and a: "absorbed P st' ((A @ ?block) @ take k (drop (current + B2B_BLOCKBYTES) out))"
      by blast
    have "take (B2B_BLOCKBYTES + k) (drop current out) =
        ?block @ take k (drop (current + B2B_BLOCKBYTES) out)"
      by (simp add: take_add add.commute)
    with a have a': "absorbed P st' (A @ take (B2B_BLOCKBYTES + k) (drop current out))"
      by simp
    from True ok r have "blake2b_incremental_loop P out out_size current out_length st =
        (None, current + (B2B_BLOCKBYTES + k), out_length - (B2B_BLOCKBYTES + k), st')"
      by (simp add: blake2b_incremental_loop.simps [of P out out_size current out_length st]
          Let_def add.assoc)
    with k a' True show ?thesis
      by (intro exI [of _ "B2B_BLOCKBYTES + k"] exI [of _ st']) simp
  qed
qed


lemma incremental_hash_absorbs:
  assumes "\<forall>h x y. b2b_update P (b2b_update P h x) y = b2b_update P h (x @ y)"
    and "absorbed P st A" and "len \<le> length out" and "length out \<le> out_size"
  shows "\<exists>k st' out'.
      blake2b_incremental_hash P out out_size len st = (None, out', len - k, st') \<and>
      k \<le> len \<and> len - k \<le> B2B_BLOCKBYTES \<and> (len \<le> B2B_BLOCKBYTES \<longrightarrow> k = 0 \<and> st' = st) \<and>
      length out' = length out \<and>
      take (len - k) out' = take (len - k) (drop k out) \<and>
      absorbed P st' (A @ take k out)"
proof -
  from assms(3) have "0 + len \<le> length out" by simp
  from loop_absorbs [OF assms(1,2) this assms(4)]
  obtain k st' where r: "blake2b_incremental_loop P out out_size 0 len st = (None, k, len - k, st')"
    and k: "k \<le> len" "len - k \<le> B2B_BLOCKBYTES" "len \<le> B2B_BLOCKBYTES \<longrightarrow> k = 0 \<and> st' = st"
    and a: "absorbed P st' (A @ take k out)"
    by auto
  let ?out' = "memmove_bytes out 0 (drop k out) (len - k)"
  from r have h: "blake2b_incremental_hash P out out_size len st = (None, ?out', len - k, st')"
    by (simp add: blake2b_incremental_hash_def)
  from k assms(3) have l: "length ?out' = length out"
    by (simp add: memmove_bytes_def)
  from k assms(3) have t: "take (len - k) ?out' = take (len - k) (drop k out)"
    by (simp add: memmove_bytes_def)
  from h k l t a show ?thesis by blast
qed

lemma hash_message_data_absorbs:
  assumes "\<forall>h x y. b2b_update (blake2 ext) (b2b_update (blake2 ext) h x) y =
      b2b_update (blake2 ext) h (x @ y)"
    and "absorbed (blake2 ext) (hash_state g) A"
    and "message_data_length g \<le> sizeof_message_data ext"
    and "length (message_data g) = sizeof_message_data ext"
  shows "\<exists>g' A'.
      hash_message_data ext g = (g', None) \<and>
      absorbed (blake2 ext) (hash_state g') A' \<and>
      A' @ take (message_data_length g') (message_data g') =
        A @ take (message_data_length g) (message_data g) \<and>
      message_data_length g' \<le> B2B_BLOCKBYTES \<and>
      message_data_length g' \<le> message_data_length g \<and>
      length (message_data g') = sizeof_message_data ext \<and>
      final_hash g' = final_hash g"
proof -
  from assms(3,4) have le: "message_data_length g \<le> length (message_data g)"
    "length (message_data g) \<le> sizeof_message_data ext" by simp_all
  from incremental_hash_absorbs [OF assms(1,2) le]
  obtain k st' out' where
    r: "blake2b_incremental_hash (blake2 ext) (message_data g) (sizeof_message_data ext)
          (message_data_length g) (hash_state g) = (None, out', message_data_length g - k, st')"
    and k: "k \<le> message_data_length g" "message_data_length g - k \<le> B2B_BLOCKBYTES"
    and l: "length out' = length (message_data g)"
    and t: "take (message_data_length g - k) out' =
        take (message_data_length g - k) (drop k (message_data g))"
    and a: "absorbed (blake2 ext) st' (A @ take k (message_data g))"
    by blast
  let ?g' = "g\<lparr>message_data := out', message_data_length := message_data_length g - k,
      hash_state := st'\<rparr>"
  from r have h: "hash_message_data ext g = (?g', None)"
    by (simp add: hash_message_data_def)
  from k have "take (message_data_length g) (message_data g) =
      take k (message_data g) @ take (message_data_length g - k) (drop k (message_data g))"
    using take_add [of k "message_data_length g - k" "message_data g"] by simp
  with t have "(A @ take k (message_data g)) @ take (message_data_length ?g') (message_data ?g') =
      A @ take (message_data_length g) (message_data g)"
    by simp
  with h a k l assms(4) show ?thesis
    by (intro exI [of _ ?g'] exI [of _ "A @ take k (message_data g)"]) simp
qed

lemma append_absorbs:
  assumes "\<forall>h x y. b2b_update (blake2 ext) (b2b_update (blake2 ext) h x) y =
      b2b_update (blake2 ext) h (x @ y)"
    and "absorbed (blake2 ext) (hash_state g) A"
    and "message_data_length g \<le> sizeof_message_data ext"
    and "length (message_data g) = sizeof_message_data ext"
  shows "\<exists>g1 A1.
      hash_message_data ext g = (g1, None) \<and>
      message_data_length g1 \<le> B2B_BLOCKBYTES \<and>
      message_data_length g1 \<le> message_data_length g \<and>
      (if message_data_length g1 + length p > sizeof_message_data ext
       then handle_apdu_append ext True p g = (g1, Some EXC_PARSE_ERROR)
       else \<exists>g'. handle_apdu_append ext True p g = (g', None) \<and>
              absorbed (blake2 ext) (hash_state g') A1 \<and>
              A1 @ take (message_data_length g') (message_data g') =
                A @ take (message_data_length g) (message_data g) @ p \<and>
              message_data_length g' \<le> sizeof_message_data ext \<and>
              length (message_data g') = sizeof_message_data ext)"
proof -
  from hash_message_data_absorbs [OF assms(1-4)]
  obtain g1 A1 where h: "hash_message_data ext g = (g1, None)"
    and a: "absorbed (blake2 ext) (hash_state g1) A1"
    and s: "A1 @ take (message_data_length g1) (message_data g1) =
        A @ take (message_data_length g) (message_data g)"
    and b: "message_data_length g1 \<le> B2B_BLOCKBYTES" "message_data_length g1 \<le> message_data_length g"
    and l: "length (message_data g1) = sizeof_message_data ext"
    by blast
  show ?thesis
  proof (cases "message_data_length g1 + length p > sizeof_message_data ext")
    case True
    with h have "handle_apdu_append ext True p g = (g1, Some EXC_PARSE_ERROR)"
      by (simp add: handle_apdu_append_def)
    with h b True show ?thesis by auto
  next
    case False
    then have fits: "message_data_length g1 + length p \<le> sizeof_message_data ext" by simp
    let ?g' = "g1\<lparr>message_data :=
        memmove_bytes (message_data g1) (message_data_length g1) p (length p),
        message_data_length := message_data_length g1 + length p\<rparr>"
    from h fits have r: "handle_apdu_append ext True p g = (?g', None)"
      by (simp add: handle_apdu_append_def)
    from fits l have t: "take (message_data_length ?g') (message_data ?g') =
        take (message_data_length g1) (message_data g1) @ p"
      by (simp add: memmove_bytes_def)
    from fits l have l': "length (message_data ?g') = sizeof_message_data ext"
      by (simp add: memmove_bytes_def)
    from s t have "A1 @ take (message_data_length ?g') (message_data ?g') =
        A @ take (message_data_length g) (message_data g) @ p"
      by (metis append.assoc)
    with r a fits l' have "\<exists>g'. handle_apdu_append ext True p g = (g', None) \<and>
        absorbed (blake2 ext) (hash_state g') A1 \<and>
        A1 @ take (message_data_length g') (message_data g') =
          A @ take (message_data_length g) (message_data g) @ p \<and>
        message_data_length g' \<le> sizeof_message_data ext \<and>
        length (message_data g') = sizeof_message_data ext"
      by (intro exI [of _ ?g']) simp
    with h b False show ?thesis by auto
  qed
qed

lemma final_hash_digest:
  assumes "\<forall>h x y. b2b_update (blake2 ext) (b2b_update (blake2 ext) h x) y =
      b2b_update (blake2 ext) h (x @ y)"
    and "absorbed (blake2 ext) (hash_state g) A"
    and "message_data_length g \<le> sizeof_message_data ext"
    and "length (message_data g) = sizeof_message_data ext"
  shows "\<exists>g'.
      handle_apdu_final_hash ext g = (g', None) \<and>
      final_hash g' =
        blake2b_digest (blake2 ext) (A @ take (message_data_length g) (message_data g))"
proof -
  let ?P = "blake2 ext"
  from hash_message_data_absorbs [OF assms]
  obtain g1 A1 where h: "hash_message_data ext g = (g1, None)"
    and a: "absorbed ?P (hash_state g1) A1"
    and s: "A1 @ take (message_data_length g1) (message_data g1) =
        A @ take (message_data_length g) (message_data g)"
    and b: "message_data_length g1 \<le> B2B_BLOCKBYTES"
    and l: "length (message_data g1) = sizeof_message_data ext"
    and c: "message_data_length g1 \<le> message_data_length g"
    by blast
  let ?st0 = "conditional_init_hash_state ?P (hash_state g1)"
  from absorbed_init [OF a] have a0: "absorbed ?P ?st0 A1" "initialized ?st0" by simp_all
  from c assms(3) l have le: "message_data_length g1 \<le> length (message_data g1)"
    "length (message_data g1) \<le> sizeof_message_data ext" by simp_all
  from incremental_hash_absorbs [OF assms(1) a0(1) le] b
  obtain out' where
    r: "blake2b_incremental_hash ?P (message_data g1) (sizeof_message_data ext)
          (message_data_length g1) ?st0 = (None, out', message_data_length g1, ?st0)"
    and t: "take (message_data_length g1) out' = take (message_data_length g1) (message_data g1)"
    by auto
  let ?R = "take (message_data_length g1) (message_data g1)"
  from absorbed_update [OF assms(1) a0, of ?R]
  have u: "b2b_update ?P (state ?st0) ?R = b2b_update ?P (b2b_init ?P SIGN_HASH_SIZE) (A1 @ ?R)"
    by (rule conjunct2)
  obtain h' digest where f: "b2b_final ?P (b2b_update ?P (state ?st0) ?R) SIGN_HASH_SIZE = (h', digest)"
    by (cases "b2b_final ?P (b2b_update ?P (state ?st0) ?R) SIGN_HASH_SIZE")
  with u have d: "digest = blake2b_digest ?P (A1 @ ?R)"
    by (simp add: blake2b_digest_def)
  from r t f have "blake2b_finish_hash ?P (final_hash g1) SIGN_HASH_SIZE (message_data g1)
      (sizeof_message_data ext) (message_data_length g1) (hash_state g1) =
      (None, digest, out', message_data_length g1, ?st0\<lparr>state := h'\<rparr>)"
    by (simp add: blake2b_finish_hash_def Let_def)
  with h have "handle_apdu_final_hash ext g =
      (g1\<lparr>final_hash := digest, message_data := out', message_data_length := message_data_length g1,
          hash_state := ?st0\<lparr>state := h'\<rparr>\<rparr>, None)"
    by (simp add: handle_apdu_final_hash_def)
  with d s show ?thesis by simp
qed

lemma hash_packets_digest:
  assumes "\<forall>h x y. b2b_update (blake2 ext) (b2b_update (blake2 ext) h x) y =
      b2b_update (blake2 ext) h (x @ y)"
  shows "ps \<noteq> [] \<Longrightarrow>
    absorbed (blake2 ext) (hash_state g) A \<Longrightarrow>
    message_data_length g \<le> sizeof_message_data ext \<Longrightarrow>
    length (message_data g) = sizeof_message_data ext \<Longrightarrow>
    hash_packets ext ps g = (g', None) \<Longrightarrow>
    final_hash g' =
      blake2b_digest (blake2 ext) (A @ take (message_data_length g) (message_data g) @ concat ps)"
proof (induction ps arbitrary: g A)
  case Nil
  then show ?case by simp
next
  case (Cons p ps)
  from append_absorbs [OF assms Cons.prems(2,3,4), of p]
  obtain g1 A1 where step: "if message_data_length g1 + length p > sizeof_message_data ext
       then handle_apdu_append ext True p g = (g1, Some EXC_PARSE_ERROR)
       else \<exists>g2. handle_apdu_append ext True p g = (g2, None) \<and>
              absorbed (blake2 ext) (hash_state g2) A1 \<and>
              A1 @ take (message_data_length g2) (message_data g2) =
                A @ take (message_data_length g) (message_data g) @ p \<and>
              message_data_length g2 \<le> sizeof_message_data ext \<and>
              length (message_data g2) = sizeof_message_data ext"
    by blast
  have "\<not> message_data_length g1 + length p > sizeof_message_data ext"
  proof
    assume "message_data_length g1 + length p > sizeof_message_data ext"
    with step have "handle_apdu_append ext True p g = (g1, Some EXC_PARSE_ERROR)" by simp
    with Cons.prems(5) show False by (cases ps) simp_all
  qed
  with step obtain g2 where r: "handle_apdu_append ext True p g = (g2, None)"
    and a: "absorbed (blake2 ext) (hash_state g2) A1"
    and s: "A1 @ take (message_data_length g2) (message_data g2) =
        A @ take (message_data_length g) (message_data g) @ p"
    and b: "message_data_length g2 \<le> sizeof_message_data ext"
    and l: "length (message_data g2) = sizeof_message_data ext"
    by auto
  show ?case
  proof (cases "ps = []")
    case True
    with Cons.prems(5) r have "handle_apdu_final_hash ext g2 = (g', None)" by simp
    with final_hash_digest [OF assms a b l] s True show ?thesis by simp
  next
    case False
    with Cons.prems(5) r have "hash_packets ext ps g2 = (g', None)"
      by (cases ps) simp_all
    from Cons.IH [OF False a b l this] s show ?thesis
      by (simp add: append.assoc [symmetric] del: append.assoc append_assoc)
  qed
qed

lemma hash_packets_accepted:
  assumes "\<forall>h x y. b2b_update (blake2 ext) (b2b_update (blake2 ext) h x) y =
      b2b_update (blake2 ext) h (x @ y)"
  shows "ps \<noteq> [] \<Longrightarrow>
    absorbed (blake2 ext) (hash_state g) A \<Longrightarrow>
    message_data_length g \<le> sizeof_message_data ext \<Longrightarrow>
    length (message_data g) = sizeof_message_data ext \<Longrightarrow>
    (\<forall>p\<in>set ps. B2B_BLOCKBYTES + length p \<le> sizeof_message_data ext) \<or>
      (message_data_length g = 0 \<and> (\<exists>p. ps = [p] \<and> length p \<le> sizeof_message_data ext)) \<Longrightarrow>
    \<exists>g'. hash_packets ext ps g = (g', None)"
proof (induction ps arbitrary: g A)
  case Nil
  then show ?case by simp
next
  case (Cons p ps)
  from append_absorbs [OF assms Cons.prems(2,3,4), of p]
  obtain g1 A1 where small: "message_data_length g1 \<le> B2B_BLOCKBYTES"
      "message_data_length g1 \<le> message_data_length g"
    and step: "if message_data_length g1 + length p > sizeof_message_data ext
       then handle_apdu_append ext True p g = (g1, Some EXC_PARSE_ERROR)
       else \<exists>g2. handle_apdu_append ext True p g = (g2, None) \<and>
              absorbed (blake2 ext) (hash_state g2) A1 \<and>
              A1 @ take (message_data_length g2) (message_data g2) =
                A @ take (message_data_length g) (message_data g) @ p \<and>
              message_data_length g2 \<le> sizeof_message_data ext \<and>
              length (message_data g2) = sizeof_message_data ext"
    by blast
  from small Cons.prems(5) have "\<not> message_data_length g1 + length p > sizeof_message_data ext"
    by auto
  with step obtain g2 where r: "handle_apdu_append ext True p g = (g2, None)"
    and a: "absorbed (blake2 ext) (hash_state g2) A1"
    and b: "message_data_length g2 \<le> sizeof_message_data ext"
    and l: "length (message_data g2) = sizeof_message_data ext"
    by auto
  show ?case
  proof (cases "ps = []")
    case True
    from final_hash_digest [OF assms a b l] True r show ?thesis by auto
  next
    case False
    with Cons.prems(5) have "\<forall>x\<in>set ps. B2B_BLOCKBYTES + length x \<le> sizeof_message_data ext"
      by auto
    with Cons.IH [OF False a b l] obtain g' where "hash_packets ext ps g2 = (g', None)"
      by blast
    with r False show ?thesis by (cases ps) simp_all
  qed
qed

lemma absorbed_fresh: "\<not> initialized st \<Longrightarrow> absorbed P st []"
  by (simp add: absorbed_def)

text \<open>
  C5. Chunk-invariance of the incremental hasher. Let the primitive be a streaming hash
  (feeding \<open>x\<close> and then \<open>y\<close> leaves the state that feeding \<open>x @ y\<close> leaves) and let the
  session be fresh: hash state not initialised, buffer empty, buffer of the declared
  capacity. Then for every split \<open>ps\<close> of a byte stream into packets, hashing at each
  packet boundary and finalising leaves as final hash the digest of the whole stream
  \<open>concat ps\<close>, whatever the split and whatever the length of the stream; so does the
  stream delivered as one packet. A split is taken in, with that digest, whenever each
  of its packets leaves room for one block of pending bytes, and the single packet
  whenever the stream fits the buffer.
\<close>

theorem chunk_invariance:
  assumes "\<forall>h x y. b2b_update (blake2 ext) (b2b_update (blake2 ext) h x) y =
      b2b_update (blake2 ext) h (x @ y)"
    and "\<not> initialized (hash_state g)"
    and "message_data_length g = 0"
    and "length (message_data g) = sizeof_message_data ext"
    and "ps \<noteq> []"
  shows
    "(\<forall>g1. hash_packets ext ps g = (g1, None) \<longrightarrow>
        final_hash g1 = blake2b_digest (blake2 ext) (concat ps)) \<and>
     (\<forall>g2. hash_packets ext [concat ps] g = (g2, None) \<longrightarrow>
        final_hash g2 = blake2b_digest (blake2 ext) (concat ps)) \<and>
     ((\<forall>p\<in>set ps. B2B_BLOCKBYTES + length p \<le> sizeof_message_data ext) \<longrightarrow>
        (\<exists>g1. hash_packets ext ps g = (g1, None) \<and>
           final_hash g1 = blake2b_digest (blake2 ext) (concat ps))) \<and>
     (length (concat ps) \<le> sizeof_message_data ext \<longrightarrow>
        (\<exists>g2. hash_packets ext [concat ps] g = (g2, None) \<and>
           final_hash g2 = blake2b_digest (blake2 ext) (concat ps)))"
proof -
  from assms(2) have a: "absorbed (blake2 ext) (hash_state g) []" by (rule absorbed_fresh)
  from assms(3) have b: "message_data_length g \<le> sizeof_message_data ext" by simp
  have d1: "final_hash g1 = blake2b_digest (blake2 ext) (concat ps)"
    if "hash_packets ext ps g = (g1, None)" for g1
    using hash_packets_digest [OF assms(1,5) a b assms(4) that] assms(3) by simp
  have d2: "final_hash g2 = blake2b_digest (blake2 ext) (concat ps)"
    if "hash_packets ext [concat ps] g = (g2, None)" for g2
    using hash_packets_digest [OF assms(1) _ a b assms(4) that] assms(3) by simp
  have acc1: "\<exists>g1. hash_packets ext ps g = (g1, None)"
    if "\<forall>p\<in>set ps. B2B_BLOCKBYTES + length p \<le> sizeof_message_data ext"
    using hash_packets_accepted [OF assms(1,5) a b assms(4)] that by blast
  have acc2: "\<exists>g2. hash_packets ext [concat ps] g = (g2, None)"
    if "length (concat ps) \<le> sizeof_message_data ext"
    using hash_packets_accepted [OF assms(1) _ a b assms(4), of "[concat ps]"] that assms(3)
    by blast
  from d1 have c1: "\<forall>g1. hash_packets ext ps g = (g1, None) \<longrightarrow>
        final_hash g1 = blake2b_digest (blake2 ext) (concat ps)" by blast
  from d2 have c2: "\<forall>g2. hash_packets ext [concat ps] g = (g2, None) \<longrightarrow>
        final_hash g2 = blake2b_digest (blake2 ext) (concat ps)" by blast
  from d1 acc1 have c3: "(\<forall>p\<in>set ps. B2B_BLOCKBYTES + length p \<le> sizeof_message_data ext) \<longrightarrow>
        (\<exists>g1. hash_packets ext ps g = (g1, None) \<and>
           final_hash g1 = blake2b_digest (blake2 ext) (concat ps))" by blast
  from d2 acc2 have c4: "length (concat ps) \<le> sizeof_message_data ext \<longrightarrow>
        (\<exists>g2. hash_packets ext [concat ps] g = (g2, None) \<and>
           final_hash g2 = blake2b_digest (blake2 ext) (concat ps))" by blast
  from c1 c2 c3 c4 show ?thesis by (intro conjI)
qed

lemma sample_blake2_streams:
  "\<forall>h x y. b2b_update (blake2 (sample_ext b)) (b2b_update (blake2 (sample_ext b)) h x) y =
     b2b_update (blake2 (sample_ext b)) h (x @ y)"
  by (simp add: sample_ext_def sample_blake2_def)

lemma sample_session_fresh:
  "\<not> initialized (hash_state sample_session)"
  "length (message_data sample_session) = sizeof_message_data (sample_ext b)"
  by (simp_all add: sample_session_def clear_data_def sample_ext_def)

lemma sample_digest:
  "blake2b_digest (blake2 (sample_ext b)) (replicate 127 7 @ [8] @ [9] @ replicate 171 10) =
     replicate 32 56"
  by (simp add: blake2b_digest_def sample_ext_def sample_blake2_def SIGN_HASH_SIZE_def
      sum_list_replicate)

lemma sum_list_concat_replicate:
  "sum_list (map f (concat (replicate n xs))) = n * sum_list (map f xs)"
  by (induction n) simp_all

lemma sample_long_digest:
  "blake2b_digest (blake2 (sample_ext b)) (concat (replicate 10 (replicate 200 1))) =
     replicate 32 208"
  by (simp add: blake2b_digest_def sample_ext_def sample_blake2_def SIGN_HASH_SIZE_def
      sum_list_concat_replicate sum_list_replicate)

lemma one_packet_refused:
  assumes "message_data_length g = 0" and "sizeof_message_data ext < length p"
  shows "snd (hash_packets ext [p] g) = Some EXC_PARSE_ERROR"
  using assms
  by (simp add: handle_apdu_append_def hash_message_data_def blake2b_incremental_hash_def
      blake2b_incremental_loop.simps [of _ _ _ 0 0] B2B_BLOCKBYTES_def)

lemma sample_long_refused:
  "snd (hash_packets (sample_ext False) [concat (replicate 10 (replicate 200 1))] sample_session) =
     Some EXC_PARSE_ERROR"
  by (rule one_packet_refused)
    (simp_all add: sample_session_fields sample_ext_consts length_concat sum_list_replicate)

theorem chunk_invariance_witness:
  "(\<exists>g1 g2.
      hash_packets (sample_ext False) [replicate 127 7, [8], [9], replicate 171 10] sample_session =
        (g1, None) \<and>
      hash_packets (sample_ext False) [replicate 127 7 @ [8] @ [9] @ replicate 171 10]
        sample_session = (g2, None) \<and>
      final_hash g1 = replicate 32 56 \<and> final_hash g2 = replicate 32 56) \<and>
   (\<exists>g1.
      hash_packets (sample_ext False) (replicate 10 (replicate 200 1)) sample_session =
        (g1, None) \<and>
      final_hash g1 = replicate 32 208) \<and>
   snd (hash_packets (sample_ext False) [concat (replicate 10 (replicate 200 1))] sample_session) =
     Some EXC_PARSE_ERROR"
proof -
  let ?ps = "[replicate 127 7, [8], [9], replicate 171 (10 :: byte)]"
  let ?qs = "replicate 10 (replicate 200 (1 :: byte))"
  have c: "concat ?ps = replicate 127 7 @ [8] @ [9] @ replicate 171 10" by simp
  have q: "?qs \<noteq> []" by simp
  note t = chunk_invariance [OF sample_blake2_streams sample_session_fresh(1)
      sample_session_fields(3) sample_session_fresh(2), of ?ps False]
  note u = chunk_invariance [OF sample_blake2_streams sample_session_fresh(1)
      sample_session_fields(3) sample_session_fresh(2) q, of False]
  from t obtain g1 where r1: "hash_packets (sample_ext False) ?ps sample_session = (g1, None)"
    and h1: "final_hash g1 = blake2b_digest (blake2 (sample_ext False)) (concat ?ps)"
    by (auto simp add: sample_ext_consts B2B_BLOCKBYTES_def)
  from t obtain g2 where r2: "hash_packets (sample_ext False) [concat ?ps] sample_session = (g2, None)"
    and h2: "final_hash g2 = blake2b_digest (blake2 (sample_ext False)) (concat ?ps)"
    by (auto simp add: sample_ext_consts)
  from u obtain g3 where r3: "hash_packets (sample_ext False) ?qs sample_session = (g3, None)"
    and h3: "final_hash g3 = blake2b_digest (blake2 (sample_ext False)) (concat ?qs)"
    by (auto simp add: sample_ext_consts B2B_BLOCKBYTES_def)
  from r1 h1 r2 h2 have A: "\<exists>g1 g2.
      hash_packets (sample_ext False) [replicate 127 7, [8], [9], replicate 171 10] sample_session =
        (g1, None) \<and>
      hash_packets (sample_ext False) [replicate 127 7 @ [8] @ [9] @ replicate 171 10]
        sample_session = (g2, None) \<and>
      final_hash g1 = replicate 32 56 \<and> final_hash g2 = replicate 32 56"
    by (simp only: c sample_digest) blast
  from r3 h3 have B: "\<exists>g1. hash_packets (sample_ext False) ?qs sample_session = (g1, None) \<and>
      final_hash g1 = replicate 32 208"
    by (simp only: sample_long_digest) blast
  from A B sample_long_refused show ?thesis by (intro conjI)
qed

end
